theory Spec2Isabelle
  imports Complex_Main "HOL-Library.AList"
begin

section \<open>The sdc module: creating and deleting SmartDataCenter machines\<close>

text \<open>
  The module \<^verbatim>\<open>cloud/smartdatacenter/sdc.py\<close> talks to a compute provider through the
  \<^verbatim>\<open>smartdc\<close> library and to its caller through an \<^verbatim>\<open>AnsibleModule\<close> object. Neither
  library is part of the module, so both are parameters of the embedding: the module's
  parameters are a record, and the provider, the clock and \<^verbatim>\<open>time.sleep\<close> are the fields of
  an environment record whose functions act on a provider state of any type \<open>'p\<close>.

  Every function of the module becomes a function from a world (the calls issued so far and
  the provider state) to a result and the next world. A result is \<open>Inr\<close> a value or \<open>Inl\<close> an
  error: \<^verbatim>\<open>module.fail_json(msg=...)\<close>, which ends the process, a Python \<^verbatim>\<open>TypeError\<close> or
  \<^verbatim>\<open>OverflowError\<close>, or an exception of a provider call, which the module never catches.
\<close>

subsection \<open>Data\<close>

text \<open>A Python dict of strings is an association list with distinct keys.\<close>

type_synonym pydict = "(string \<times> string) list"

text \<open>A machine handle of \<^verbatim>\<open>smartdc\<close> is identified with its \<^verbatim>\<open>id\<close> attribute.\<close>

type_synonym machine = string

datatype error =
    Fail_json string
  | TypeError
  | OverflowError
  | ProviderError string
  | Out_of_fuel

text \<open>
  \<open>Out_of_fuel\<close> is not an error of the module: it is the answer of the model when the
  polling loop of \<^verbatim>\<open>_wait_for_status\<close> is still running after the number of iterations it
  was given.
\<close>

text \<open>The calls the module issues to the provider, with the arguments it passes.\<close>

datatype call =
    Machines pydict "string option"
  | Machine string
  | Create_machine "string option" "string option" "string option" "string list option" pydict
  | Raw_machine_data string
  | Status machine
  | Stop machine
  | Delete machine

text \<open>
  \<^verbatim>\<open>module.params\<close>, with the types and defaults of the \<^verbatim>\<open>argument_spec\<close> in \<^verbatim>\<open>main\<close>:
  \<^verbatim>\<open>tags\<close> and \<^verbatim>\<open>count_tag\<close> default to the empty dict, \<^verbatim>\<open>count\<close> to 1, \<^verbatim>\<open>wait_timeout\<close>
  to 600, and a parameter without a default that the caller leaves out is \<^verbatim>\<open>None\<close>.
\<close>

record params =
  machine_id :: "string option"
  name :: "string option"
  package :: "string option"
  image_id :: "string option"
  networks :: "string list option"
  tags :: pydict
  count :: int
  count_tag :: pydict
  exact_count :: "int option"
  wait :: bool
  wait_timeout :: int

text \<open>
  The environment: the methods of the \<^verbatim>\<open>DataCenter\<close> object and of its machine handles,
  each returning \<open>Inl\<close> the message of the exception it raises or \<open>Inr\<close> its value,
  \<^verbatim>\<open>time.time\<close> and \<^verbatim>\<open>time.sleep\<close>, and the rounding of a real number to the nearest double of
  the machine. A clock reading is a double, that is a real number of seconds.
\<close>

record ('p, 'r) env =
  sdc_machines :: "pydict \<Rightarrow> string option \<Rightarrow> 'p \<Rightarrow> (string + machine list) \<times> 'p"
  sdc_machine :: "string \<Rightarrow> 'p \<Rightarrow> (string + machine) \<times> 'p"
  sdc_create_machine :: "string option \<Rightarrow> string option \<Rightarrow> string option \<Rightarrow>
    string list option \<Rightarrow> pydict \<Rightarrow> 'p \<Rightarrow> (string + machine) \<times> 'p"
  sdc_raw_machine_data :: "string \<Rightarrow> 'p \<Rightarrow> (string + 'r) \<times> 'p"
  sm_status :: "machine \<Rightarrow> 'p \<Rightarrow> (string + string) \<times> 'p"
  sm_stop :: "machine \<Rightarrow> 'p \<Rightarrow> (string + unit) \<times> 'p"
  sm_delete :: "machine \<Rightarrow> 'p \<Rightarrow> (string + unit) \<times> 'p"
  time_time :: "'p \<Rightarrow> real \<times> 'p"
  time_sleep :: "real \<Rightarrow> 'p \<Rightarrow> 'p"
  float_round :: "real \<Rightarrow> real"

record 'p world =
  api_log :: "call list"
  prov :: 'p

subsection \<open>Sequencing\<close>

type_synonym ('p, 'a) action = "'p world \<Rightarrow> (error + 'a) \<times> 'p world"

definition bind :: "('p, 'a) action \<Rightarrow> ('a \<Rightarrow> ('p, 'b) action) \<Rightarrow> ('p, 'b) action" where
  "bind m f w = (case m w of (Inl e, w1) \<Rightarrow> (Inl e, w1) | (Inr x, w1) \<Rightarrow> f x w1)"

definition return :: "'a \<Rightarrow> ('p, 'a) action" where
  "return x w = (Inr x, w)"

definition raise :: "error \<Rightarrow> ('p, 'a) action" where
  "raise e w = (Inl e, w)"

text \<open>
  A provider call: the call is appended to the log, the provider state moves on, and an
  exception of the provider becomes a \<open>ProviderError\<close>.
\<close>

definition api :: "call \<Rightarrow> ('p \<Rightarrow> (string + 'a) \<times> 'p) \<Rightarrow> ('p, 'a) action" where
  "api c f w =
     (case f (prov w) of
        (r, s) \<Rightarrow> ((case r of Inl m \<Rightarrow> Inl (ProviderError m) | Inr x \<Rightarrow> Inr x),
                   \<lparr>api_log = api_log w @ [c], prov = s\<rparr>))"

subsection \<open>Python helpers\<close>

text \<open>\<^verbatim>\<open>int(x)\<close> on a parameter that is an integer or \<^verbatim>\<open>None\<close>: \<^verbatim>\<open>int(None)\<close> raises.\<close>

definition py_int :: "int option \<Rightarrow> ('p, int) action" where
  "py_int x = (case x of None \<Rightarrow> raise TypeError | Some i \<Rightarrow> return i)"

text \<open>\<^verbatim>\<open>dict(items)\<close>: a later item replaces the value of an earlier one with the same key.\<close>

definition dict :: "(string \<times> string) list \<Rightarrow> pydict" where
  "dict items = foldl (\<lambda>d (k, v). AList.update k v d) [] items"

text \<open>
  Line 168 adds the integer \<^verbatim>\<open>wait_timeout\<close> to the double \<^verbatim>\<open>time.time()\<close>. Python first
  converts the integer to a double, which raises \<^verbatim>\<open>OverflowError\<close> when the integer rounds to
  a magnitude beyond the largest double, that is from \<open>2 ^ 1024 - 2 ^ 970\<close> on, and rounds it
  otherwise. The sum of two doubles is the rounded sum, or an infinity when the sum reaches
  that magnitude; an infinity compares as greater, or as smaller, than every clock reading.
\<close>

datatype pyfloat = Float real | PosInf | NegInf

definition float_overflow :: int where
  "float_overflow = 2 ^ 1024 - 2 ^ 970"

definition float_of_int :: "('p, 'r) env \<Rightarrow> int \<Rightarrow> ('p, real) action" where
  "float_of_int E n =
     (if float_overflow \<le> \<bar>n\<bar> then raise OverflowError
      else return (float_round E (real_of_int n)))"

definition float_add :: "('p, 'r) env \<Rightarrow> real \<Rightarrow> real \<Rightarrow> pyfloat" where
  "float_add E x y =
     (if real_of_int float_overflow \<le> x + y then PosInf
      else if x + y \<le> - real_of_int float_overflow then NegInf
      else Float (float_round E (x + y)))"

fun float_gt :: "pyfloat \<Rightarrow> real \<Rightarrow> bool" where
  "float_gt (Float d) x = (d > x)"
| "float_gt PosInf x = True"
| "float_gt NegInf x = False"

subsection \<open>\<^verbatim>\<open>_wait_for_status\<close>\<close>

text \<open>
  \<^verbatim>\<open>all(sm.status() == status for sm in machines)\<close>: the generator stops at the first
  machine that reports another status.
\<close>

fun all_status :: "('p, 'r) env \<Rightarrow> machine list \<Rightarrow> string \<Rightarrow> ('p, bool) action" where
  "all_status E [] status = return True"
| "all_status E (sm # machines) status =
     bind (api (Status sm) (sm_status E sm))
       (\<lambda>s. if s = status then all_status E machines status else return False)"

text \<open>
  The \<^verbatim>\<open>while\<close> loop. The clock is read only when some machine is not in \<open>status\<close>
  (\<^verbatim>\<open>and\<close> evaluates its right operand only then). The first argument bounds the number of
  times the loop condition is evaluated.
\<close>

fun wait_loop ::
  "nat \<Rightarrow> ('p, 'r) env \<Rightarrow> machine list \<Rightarrow> string \<Rightarrow> pyfloat \<Rightarrow> ('p, unit) action" where
  "wait_loop 0 E machines status wait_timeout_time = raise Out_of_fuel"
| "wait_loop (Suc fuel) E machines status wait_timeout_time =
     bind (all_status E machines status)
       (\<lambda>done w.
          if done then return () w
          else (case time_time E (prov w) of
                  (now, s) \<Rightarrow>
                    if float_gt wait_timeout_time now
                    then wait_loop fuel E machines status wait_timeout_time
                           (w\<lparr>prov := time_sleep E 2 s\<rparr>)
                    else return () (w\<lparr>prov := s\<rparr>)))"

text \<open>
  The function: line 168 reads the clock and then adds the timeout, lines 169 and 170 are the
  loop, and lines 172 and 173 check the machines once more and fail when one of them does not
  report the status.
\<close>

definition wait_for_status ::
  "nat \<Rightarrow> ('p, 'r) env \<Rightarrow> params \<Rightarrow> machine list \<Rightarrow> string \<Rightarrow> ('p, unit) action" where
  "wait_for_status fuel E mdl machines status w =
     (case time_time E (prov w) of
        (now, s) \<Rightarrow>
          bind (float_of_int E (wait_timeout mdl))
            (\<lambda>timeout.
               bind (wait_loop fuel E machines status (float_add E now timeout))
                 (\<lambda>_. bind (all_status E machines status)
                    (\<lambda>done. if done then return ()
                            else raise (Fail_json ''Timed out creating machines''))))
            (w\<lparr>prov := s\<rparr>))"

text \<open>
  What a check of the machines finds, said of the provider alone: every machine, polled in
  the order of the list from a provider state, answers with the status; or some machine
  answers with another status, the machines before it having answered with the status.
\<close>

fun all_report :: "('p, 'r) env \<Rightarrow> machine list \<Rightarrow> string \<Rightarrow> 'p \<Rightarrow> bool" where
  "all_report E [] status s = True"
| "all_report E (sm # machines) status s =
     (case sm_status E sm s of
        (Inl e, s1) \<Rightarrow> False
      | (Inr x, s1) \<Rightarrow> x = status \<and> all_report E machines status s1)"

fun other_found :: "('p, 'r) env \<Rightarrow> machine list \<Rightarrow> string \<Rightarrow> 'p \<Rightarrow> bool" where
  "other_found E [] status s = False"
| "other_found E (sm # machines) status s =
     (case sm_status E sm s of
        (Inl e, s1) \<Rightarrow> False
      | (Inr x, s1) \<Rightarrow> (if x = status then other_found E machines status s1 else True))"

subsection \<open>\<^verbatim>\<open>list_existing_machines\<close>\<close>

definition list_existing_machines ::
  "('p, 'r) env \<Rightarrow> params \<Rightarrow> pydict \<Rightarrow> ('p, machine list) action" where
  "list_existing_machines E mdl tgs =
     (if tgs = []
      then raise (Fail_json ''Must have tags to list existing machines for deletion/counting'')
      else api (Machines tgs (Some ''running'')) (sdc_machines E tgs (Some ''running'')))"

subsection \<open>\<^verbatim>\<open>create_virtual_machine\<close>\<close>

text \<open>Lines 209 to 213: the existing machines and the number of machines to create.\<close>

definition count_needed ::
  "('p, 'r) env \<Rightarrow> params \<Rightarrow> int \<Rightarrow> ('p, machine list \<times> int) action" where
  "count_needed E mdl exact =
     (if count_tag mdl \<noteq> [] \<and> exact \<noteq> 0
      then bind (list_existing_machines E mdl (count_tag mdl))
             (\<lambda>existing_machines.
                return (existing_machines, exact - int (length existing_machines)))
      else return ([], count mdl))"

text \<open>The \<^verbatim>\<open>for x in range(count_needed)\<close> loop, which collects the handles it creates.\<close>

fun batch_create :: "('p, 'r) env \<Rightarrow> params \<Rightarrow> pydict \<Rightarrow> nat \<Rightarrow> ('p, machine list) action" where
  "batch_create E mdl full_tags 0 = return []"
| "batch_create E mdl full_tags (Suc n) =
     bind (api (Create_machine (name mdl) (package mdl) (image_id mdl)
                  (networks mdl) full_tags)
             (sdc_create_machine E (name mdl) (package mdl) (image_id mdl)
                  (networks mdl) full_tags))
       (\<lambda>sm. bind (batch_create E mdl full_tags n)
          (\<lambda>created_machines. return (sm # created_machines)))"

text \<open>\<^verbatim>\<open>[sdc.raw_machine_data(sm.id) for sm in all_machines]\<close>\<close>

fun raw_all :: "('p, 'r) env \<Rightarrow> machine list \<Rightarrow> ('p, 'r list) action" where
  "raw_all E [] = return []"
| "raw_all E (sm # machines) =
     bind (api (Raw_machine_data sm) (sdc_raw_machine_data E sm))
       (\<lambda>r. bind (raw_all E machines) (\<lambda>rs. return (r # rs)))"

text \<open>
  Line 206, \<^verbatim>\<open>full_tags = dict(tags.items() + count_tag.items())\<close>: in Python 2 \<^verbatim>\<open>items()\<close> is
  a list, and the items of \<^verbatim>\<open>count_tag\<close> come last.
\<close>

definition full_tags_of :: "params \<Rightarrow> pydict" where
  "full_tags_of mdl = dict (tags mdl @ count_tag mdl)"

text \<open>
  The function. Of the parameters it reads in lines 192 to 201 only \<^verbatim>\<open>exact_count\<close> can be
  \<^verbatim>\<open>None\<close>, so \<^verbatim>\<open>int(module.params.get('exact_count'))\<close> is the one conversion that can raise;
  it is evaluated before any call to the provider. The first argument is the bound on the
  iterations of the polling loop.
\<close>

definition create_virtual_machine ::
  "nat \<Rightarrow> ('p, 'r) env \<Rightarrow> params \<Rightarrow> ('p, bool \<times> 'r list) action" where
  "create_virtual_machine fuel E mdl =
     bind (py_int (exact_count mdl))
       (\<lambda>exact.
          bind (count_needed E mdl exact)
            (\<lambda>(existing_machines, needed).
               bind (if needed > 0
                     then bind (batch_create E mdl (full_tags_of mdl) (nat needed))
                            (\<lambda>created_machines.
                               bind (if wait mdl
                                     then wait_for_status fuel E mdl created_machines
                                            ''running''
                                     else return ())
                                 (\<lambda>_. return (True, created_machines)))
                     else return (False, []))
                 (\<lambda>(changed, created_machines).
                    bind (raw_all E (existing_machines @ created_machines))
                      (\<lambda>raws. return (changed, raws)))))"

text \<open>
  Lines 216 to 227 by themselves, as a function of the existing machines and of the number of
  machines to create: the part of \<open>create_virtual_machine\<close> that follows \<open>count_needed\<close>.
\<close>

definition after_count ::
  "nat \<Rightarrow> ('p, 'r) env \<Rightarrow> params \<Rightarrow> machine list \<Rightarrow> int \<Rightarrow> ('p, bool \<times> 'r list) action" where
  "after_count fuel E mdl existing_machines needed =
               bind (if needed > 0
                     then bind (batch_create E mdl (full_tags_of mdl) (nat needed))
                            (\<lambda>created_machines.
                               bind (if wait mdl
                                     then wait_for_status fuel E mdl created_machines
                                            ''running''
                                     else return ())
                                 (\<lambda>_. return (True, created_machines)))
                     else return (False, []))
                 (\<lambda>(changed, created_machines).
                    bind (raw_all E (existing_machines @ created_machines))
                      (\<lambda>raws. return (changed, raws)))"

subsection \<open>\<^verbatim>\<open>delete_machines\<close>\<close>

text \<open>
  The selection of lines 241 to 245. A \<^verbatim>\<open>machine_id\<close> that is \<^verbatim>\<open>None\<close> or the empty string
  is false.
\<close>

definition select_machines :: "('p, 'r) env \<Rightarrow> params \<Rightarrow> ('p, machine list) action" where
  "select_machines E mdl =
     (if tags mdl \<noteq> []
      then api (Machines (tags mdl) None) (sdc_machines E (tags mdl) None)
      else (case machine_id mdl of
              None \<Rightarrow> return []
            | Some mid \<Rightarrow>
                if mid \<noteq> []
                then bind (api (Machine mid) (sdc_machine E mid)) (\<lambda>sm. return [sm])
                else return []))"

text \<open>\<^verbatim>\<open>[sm.stop() for sm in machines]\<close> and \<^verbatim>\<open>[sm.delete() for sm in machines]\<close>\<close>

fun stop_all :: "('p, 'r) env \<Rightarrow> machine list \<Rightarrow> ('p, unit) action" where
  "stop_all E [] = return ()"
| "stop_all E (sm # machines) =
     bind (api (Stop sm) (sm_stop E sm)) (\<lambda>_. stop_all E machines)"

fun delete_all :: "('p, 'r) env \<Rightarrow> machine list \<Rightarrow> ('p, unit) action" where
  "delete_all E [] = return ()"
| "delete_all E (sm # machines) =
     bind (api (Delete sm) (sm_delete E sm)) (\<lambda>_. delete_all E machines)"

definition delete_machines :: "nat \<Rightarrow> ('p, 'r) env \<Rightarrow> params \<Rightarrow> ('p, bool) action" where
  "delete_machines fuel E mdl =
     bind (select_machines E mdl)
       (\<lambda>machines.
          if machines \<noteq> []
          then bind (stop_all E machines)
                 (\<lambda>_. bind (wait_for_status fuel E mdl machines ''stopped'')
                    (\<lambda>_. bind (delete_all E machines) (\<lambda>_. return True)))
          else return False)"

subsection \<open>A simulated provider\<close>

text \<open>
  A small provider to run the module on: listing returns a fixed list of machines, a created
  machine gets a fresh identifier, the status of a machine is a function of the clock, and
  only \<^verbatim>\<open>time.sleep\<close> moves the clock. Its clock readings and timeouts are small integers,
  which are doubles, so its rounding leaves a number as it is.
\<close>

record sim =
  clock :: real
  made :: nat

definition sim_env :: "machine list \<Rightarrow> (machine \<Rightarrow> real \<Rightarrow> string) \<Rightarrow> (sim, string) env" where
  "sim_env existing status_at =
     \<lparr>sdc_machines = (\<lambda>t st s. (Inr existing, s)),
      sdc_machine = (\<lambda>i s. (Inr i, s)),
      sdc_create_machine =
        (\<lambda>n pk im nw t s. (Inr (replicate (Suc (made s)) CHR ''n''), s\<lparr>made := Suc (made s)\<rparr>)),
      sdc_raw_machine_data = (\<lambda>i s. (Inr i, s)),
      sm_status = (\<lambda>m s. (Inr (status_at m (clock s)), s)),
      sm_stop = (\<lambda>m s. (Inr (), s)),
      sm_delete = (\<lambda>m s. (Inr (), s)),
      time_time = (\<lambda>s. (clock s, s)),
      time_sleep = (\<lambda>d s. s\<lparr>clock := clock s + d\<rparr>),
      float_round = (\<lambda>x. x)\<rparr>"

definition sim_start :: "sim world" where
  "sim_start = \<lparr>api_log = [], prov = \<lparr>clock = 0, made = 0\<rparr>\<rparr>"

text \<open>The parameters of a run that sets nothing but the image: the defaults of \<^verbatim>\<open>main\<close>.\<close>

definition defaults :: params where
  "defaults =
     \<lparr>machine_id = None, name = None, package = None, image_id = Some ''img'',
      networks = None, tags = [], count = 1, count_tag = [], exact_count = None,
      wait = True, wait_timeout = 600\<rparr>"

subsection \<open>Scenarios\<close>

text \<open>
  Five machines tagged \<^verbatim>\<open>role=web\<close> are asked for, with base tags that give \<^verbatim>\<open>role\<close> another
  value; the provider has two matching machines and reports every machine running at once.
\<close>

definition web_params :: params where
  "web_params = defaults\<lparr>tags := [(''role'', ''db''), (''x'', ''y'')],
     count_tag := [(''role'', ''web'')], exact_count := Some 5\<rparr>"

definition running_env :: "(sim, string) env" where
  "running_env = sim_env [''a'', ''b''] (\<lambda>m t. ''running'')"

text \<open>An exact count of zero with a count tag, and an exact count without a count tag.\<close>

definition zero_params :: params where
  "zero_params = defaults\<lparr>count_tag := [(''role'', ''web'')], exact_count := Some 0\<rparr>"

definition untagged_params :: params where
  "untagged_params = defaults\<lparr>exact_count := Some 5\<rparr>"

text \<open>
  A wait with a timeout of zero and one with a timeout too large for a double; a provider
  whose machines never report \<^verbatim>\<open>running\<close>, and one whose first created machine runs at once
  while the others never do, asked with a timeout of four seconds; and a provider whose
  machines report \<^verbatim>\<open>stopped\<close> once two seconds have passed, asked to delete the machines
  tagged \<^verbatim>\<open>role=web\<close>.
\<close>

definition patient_params :: params where
  "patient_params = defaults\<lparr>wait_timeout := 0\<rparr>"

definition idle_env :: "(sim, string) env" where
  "idle_env = sim_env [] (\<lambda>m t. ''provisioning'')"

definition huge_params :: params where
  "huge_params = defaults\<lparr>wait_timeout := 2 ^ 1024\<rparr>"



definition stopping_env :: "(sim, string) env" where
  "stopping_env = sim_env [''a'', ''b''] (\<lambda>m t. if 2 \<le> t then ''stopped'' else ''stopping'')"

definition absent_params :: params where
  "absent_params = defaults\<lparr>tags := [(''role'', ''web'')]\<rparr>"

subsection \<open>A provider that keeps its machines\<close>

text \<open>
  A second provider, which remembers the machines it has created, with their tags and the
  time of their creation. A machine reports \<^verbatim>\<open>provisioning\<close> until \<open>boot\<close> seconds after its
  creation and \<^verbatim>\<open>running\<close> from then on. A listing returns the machines whose tags hold every
  pair of the selector and, when a state is asked for, that report this state.
\<close>

definition tags_match :: "pydict \<Rightarrow> pydict \<Rightarrow> bool" where
  "tags_match sel t = (\<forall>(k, v)\<in>set sel. map_of t k = Some v)"

record cloud =
  cloud_clock :: real
  fleet :: "(machine \<times> pydict \<times> real) list"

definition cloud_status :: "real \<Rightarrow> cloud \<Rightarrow> real \<Rightarrow> string" where
  "cloud_status boot s born =
     (if born + boot \<le> cloud_clock s then ''running'' else ''provisioning'')"

definition cloud_env :: "real \<Rightarrow> (cloud, string) env" where
  "cloud_env boot =
     \<lparr>sdc_machines =
        (\<lambda>sel st s.
           (Inr (map fst
              (filter (\<lambda>(i, t, born). tags_match sel t
                         \<and> (case st of None \<Rightarrow> True | Some x \<Rightarrow> x = cloud_status boot s born))
                 (fleet s))), s)),
      sdc_machine = (\<lambda>i s. (Inr i, s)),
      sdc_create_machine =
        (\<lambda>n pk im nw t s.
           (Inr (replicate (Suc (length (fleet s))) CHR ''n''),
            s\<lparr>fleet := fleet s @ [(replicate (Suc (length (fleet s))) CHR ''n'', t, cloud_clock s)]\<rparr>)),
      sdc_raw_machine_data = (\<lambda>i s. (Inr i, s)),
      sm_status =
        (\<lambda>m s. (case find (\<lambda>(i, t, born). i = m) (fleet s) of
                    None \<Rightarrow> Inl ''no such machine''
                  | Some (i, t, born) \<Rightarrow> Inr (cloud_status boot s born), s)),
      sm_stop = (\<lambda>m s. (Inr (), s)),
      sm_delete = (\<lambda>m s. (Inr (), s)),
      time_time = (\<lambda>s. (cloud_clock s, s)),
      time_sleep = (\<lambda>d s. s\<lparr>cloud_clock := cloud_clock s + d\<rparr>),
      float_round = (\<lambda>x. x)\<rparr>"

definition cloud_start :: "cloud world" where
  "cloud_start = \<lparr>api_log = [], prov = \<lparr>cloud_clock = 0, fleet = []\<rparr>\<rparr>"

definition one_web_params :: params where
  "one_web_params = defaults\<lparr>count_tag := [(''role'', ''web'')], exact_count := Some 1,
     wait_timeout := 4\<rparr>"


subsection \<open>A clock that moves forward\<close>


subsection \<open>Counting the create calls of a log\<close>

definition is_create :: "call \<Rightarrow> bool" where
  "is_create c = (case c of Create_machine n pk im nw t \<Rightarrow> True | _ \<Rightarrow> False)"

definition creates :: "call list \<Rightarrow> nat" where
  "creates l = length (filter is_create l)"

section \<open>Properties\<close>

subsection \<open>The calls each step adds to the log\<close>

lemmas act = bind_def return_def raise_def api_def

lemma creates_simps [simp]:
  "creates [] = 0"
  "creates (l @ l') = creates l + creates l'"
  "creates (Create_machine n pk im nw t # l) = Suc (creates l)"
  "creates (Machines t' st # l) = creates l"
  "creates (Machine i # l) = creates l"
  "creates (Raw_machine_data i # l) = creates l"
  "creates (Status m # l) = creates l"
  "creates (Stop m # l) = creates l"
  "creates (Delete m # l) = creates l"
  by (simp_all add: creates_def is_create_def)

lemma creates_map [simp]:
  "creates (map Status ms) = 0" "creates (map Raw_machine_data ms) = 0"
  "creates (map Stop ms) = 0" "creates (map Delete ms) = 0"
  by (induction ms) simp_all

lemma creates_replicate [simp]: "creates (replicate k (Create_machine n pk im nw t)) = k"
  by (induction k) simp_all

lemma api_log: "api c f w = (r, w') \<Longrightarrow> api_log w' = api_log w @ [c]"
  by (auto simp: api_def split: prod.splits)

lemma api_error: "api c f w = (Inl e, w') \<Longrightarrow> \<exists>m. e = ProviderError m"
  by (auto simp: api_def split: prod.splits sum.splits)

lemma all_status_log:
  "all_status E ms st w = (r, w') \<Longrightarrow>
     \<exists>k\<le>length ms. api_log w' = api_log w @ map Status (take k ms) \<and> (r = Inr True \<longrightarrow> k = length ms)"
proof (induction ms arbitrary: w)
  case Nil
  then show ?case by (simp add: return_def)
next
  case (Cons sm ms)
  obtain r1 w1 where a: "api (Status sm) (sm_status E sm) w = (r1, w1)"
    by (cases "api (Status sm) (sm_status E sm) w")
  have l1: "api_log w1 = api_log w @ [Status sm]" using a by (rule api_log)
  show ?case
  proof (cases r1)
    case (Inl e)
    with Cons.prems a have "w' = w1" "r = Inl e" by (simp_all add: bind_def)
    with l1 show ?thesis by (intro exI[of _ 1]) simp
  next
    case (Inr s)
    show ?thesis
    proof (cases "s = st")
      case True
      with Cons.prems a Inr have "all_status E ms st w1 = (r, w')" by (simp add: bind_def)
      from Cons.IH[OF this] obtain k where
        "k \<le> length ms" "api_log w' = api_log w1 @ map Status (take k ms)" "r = Inr True \<longrightarrow> k = length ms"
        by blast
      with l1 show ?thesis by (intro exI[of _ "Suc k"]) simp
    next
      case False
      with Cons.prems a Inr have "w' = w1" "r = Inr False" by (simp_all add: bind_def return_def)
      with l1 show ?thesis by (intro exI[of _ 1]) simp
    qed
  qed
qed

lemma all_status_statuses:
  "all_status E ms st w = (r, w') \<Longrightarrow> \<exists>qs. api_log w' = api_log w @ map Status qs"
  by (drule all_status_log) blast

lemma all_status_result:
  "all_status E ms st w = (Inl e, w') \<Longrightarrow> \<exists>m. e = ProviderError m"
proof (induction ms arbitrary: w)
  case Nil
  then show ?case by (simp add: return_def)
next
  case (Cons sm ms)
  then show ?case
    by (auto simp: bind_def return_def split: prod.splits sum.splits if_splits dest: api_error)
qed

lemma wait_loop_log:
  "wait_loop fuel E ms st dl w = (r, w') \<Longrightarrow> \<exists>qs. api_log w' = api_log w @ map Status qs"
proof (induction fuel arbitrary: w)
  case 0
  then show ?case by (auto simp: raise_def intro: exI[of _ "[]"])
next
  case (Suc fuel)
  obtain r1 w1 where a: "all_status E ms st w = (r1, w1)"
    by (cases "all_status E ms st w")
  then obtain q1 where l1: "api_log w1 = api_log w @ map Status q1"
    by (auto dest: all_status_statuses)
  show ?case
  proof (cases "r1 = Inr False \<and> float_gt dl (fst (time_time E (prov w1)))")
    case True
    with Suc.prems a have
      "wait_loop fuel E ms st dl (w1\<lparr>prov := time_sleep E 2 (snd (time_time E (prov w1)))\<rparr>) = (r, w')"
      by (simp add: bind_def split: prod.splits)
    from Suc.IH[OF this] obtain q2 where "api_log w' = api_log w1 @ map Status q2" by auto
    with l1 show ?thesis by (intro exI[of _ "q1 @ q2"]) simp
  next
    case False
    with Suc.prems a have "api_log w' = api_log w1"
      by (cases r1) (auto simp: bind_def return_def split: prod.splits if_splits)
    with l1 show ?thesis by auto
  qed
qed

lemma float_of_int_cases:
  "float_of_int E n w = (if float_overflow \<le> \<bar>n\<bar> then (Inl OverflowError, w)
                         else (Inr (float_round E (real_of_int n)), w))"
  by (simp add: float_of_int_def raise_def return_def)

lemma wait_for_status_unfold:
  assumes "time_time E (prov w) = (now, s)"
  shows "wait_for_status fuel E p ms st w =
     (if float_overflow \<le> \<bar>wait_timeout p\<bar> then (Inl OverflowError, w\<lparr>prov := s\<rparr>)
      else bind (wait_loop fuel E ms st
                   (float_add E now (float_round E (real_of_int (wait_timeout p)))))
             (\<lambda>_. bind (all_status E ms st)
                (\<lambda>done. if done then return ()
                        else raise (Fail_json ''Timed out creating machines'')))
             (w\<lparr>prov := s\<rparr>))"
  using assms by (simp add: wait_for_status_def float_of_int_cases bind_def)

lemma wait_for_status_log:
  assumes "wait_for_status fuel E p ms st w = (r, w')"
  shows "\<exists>qs. api_log w' = api_log w @ map Status qs"
proof -
  obtain now s where t: "time_time E (prov w) = (now, s)" by (cases "time_time E (prov w)")
  let ?w0 = "w\<lparr>prov := s\<rparr>"
  let ?dl = "float_add E now (float_round E (real_of_int (wait_timeout p)))"
  show ?thesis
  proof (cases "float_overflow \<le> \<bar>wait_timeout p\<bar>")
    case True
    with assms t have "w' = ?w0" by (simp add: wait_for_status_unfold)
    then show ?thesis by (intro exI[of _ "[]"]) simp
  next
    case False
    obtain r1 w1 where a: "wait_loop fuel E ms st ?dl ?w0 = (r1, w1)"
      by (cases "wait_loop fuel E ms st ?dl ?w0")
    then obtain q1 where l1: "api_log w1 = api_log w @ map Status q1"
      by (auto dest: wait_loop_log)
    show ?thesis
    proof (cases r1)
      case (Inl e)
      with assms t a False have "w' = w1" by (simp add: wait_for_status_unfold bind_def)
      with l1 show ?thesis by auto
    next
      case (Inr u)
      obtain r2 w2 where b: "all_status E ms st w1 = (r2, w2)" by (cases "all_status E ms st w1")
      then obtain q2 where l2: "api_log w2 = api_log w1 @ map Status q2"
        by (auto dest: all_status_statuses)
      from assms t a Inr b False have "w' = w2"
        by (cases r2)
          (auto simp: wait_for_status_unfold bind_def return_def raise_def split: if_splits)
      with l1 l2 show ?thesis by (intro exI[of _ "q1 @ q2"]) simp
    qed
  qed
qed

lemma batch_create_log:
  "batch_create E p ft n w = (r, w') \<Longrightarrow>
     \<exists>k\<le>n. api_log w' = api_log w @ replicate k (Create_machine (name p) (package p) (image_id p) (networks p) ft)
        \<and> (case r of Inr ms \<Rightarrow> k = n \<and> length ms = n | Inl e \<Rightarrow> \<exists>m. e = ProviderError m)"
proof (induction n arbitrary: w r w')
  case 0
  then show ?case by (auto simp: return_def)
next
  case (Suc n)
  let ?c = "Create_machine (name p) (package p) (image_id p) (networks p) ft"
  obtain r1 w1 where a: "api ?c (sdc_create_machine E (name p) (package p) (image_id p) (networks p) ft) w = (r1, w1)"
    by (cases "api ?c (sdc_create_machine E (name p) (package p) (image_id p) (networks p) ft) w")
  have l1: "api_log w1 = api_log w @ [?c]" using a by (rule api_log)
  show ?case
  proof (cases r1)
    case (Inl e)
    with Suc.prems a have "w' = w1" "r = Inl e" by (simp_all add: bind_def)
    moreover from a Inl have "\<exists>m. e = ProviderError m" by (auto dest: api_error)
    ultimately show ?thesis using l1 by (intro exI[of _ 1]) auto
  next
    case (Inr sm)
    obtain r2 w2 where b: "batch_create E p ft n w1 = (r2, w2)" by (cases "batch_create E p ft n w1")
    from Suc.IH[OF b] obtain k where k: "k \<le> n" "api_log w2 = api_log w1 @ replicate k ?c"
      "case r2 of Inr ms \<Rightarrow> k = n \<and> length ms = n | Inl e \<Rightarrow> \<exists>m. e = ProviderError m"
      by blast
    from Suc.prems a Inr b have "w' = w2" "r = (case r2 of Inl e \<Rightarrow> Inl e | Inr ms \<Rightarrow> Inr (sm # ms))"
      by (auto simp: bind_def return_def split: sum.splits)
    with k l1 show ?thesis
      by (intro exI[of _ "Suc k"]) (auto split: sum.splits simp: replicate_append_same)
  qed
qed

lemma raw_all_log:
  "raw_all E ms w = (r, w') \<Longrightarrow>
     \<exists>k\<le>length ms. api_log w' = api_log w @ map Raw_machine_data (take k ms)
        \<and> (case r of Inr rs \<Rightarrow> k = length ms \<and> length rs = length ms | Inl e \<Rightarrow> \<exists>m. e = ProviderError m)"
proof (induction ms arbitrary: w r w')
  case Nil
  then show ?case by (auto simp: return_def)
next
  case (Cons sm ms)
  obtain r1 w1 where a: "api (Raw_machine_data sm) (sdc_raw_machine_data E sm) w = (r1, w1)"
    by (cases "api (Raw_machine_data sm) (sdc_raw_machine_data E sm) w")
  have l1: "api_log w1 = api_log w @ [Raw_machine_data sm]" using a by (rule api_log)
  show ?case
  proof (cases r1)
    case (Inl e)
    with Cons.prems a have "w' = w1" "r = Inl e" by (simp_all add: bind_def)
    moreover from a Inl have "\<exists>m. e = ProviderError m" by (auto dest: api_error)
    ultimately show ?thesis using l1 by (intro exI[of _ 1]) auto
  next
    case (Inr x)
    obtain r2 w2 where b: "raw_all E ms w1 = (r2, w2)" by (cases "raw_all E ms w1")
    from Cons.IH[OF b] obtain k where k: "k \<le> length ms" "api_log w2 = api_log w1 @ map Raw_machine_data (take k ms)"
      "case r2 of Inr rs \<Rightarrow> k = length ms \<and> length rs = length ms | Inl e \<Rightarrow> \<exists>m. e = ProviderError m"
      by blast
    from Cons.prems a Inr b have "w' = w2" "r = (case r2 of Inl e \<Rightarrow> Inl e | Inr rs \<Rightarrow> Inr (x # rs))"
      by (auto simp: bind_def return_def split: sum.splits)
    with k l1 show ?thesis
      by (intro exI[of _ "Suc k"]) (auto split: sum.splits)
  qed
qed

lemma stop_all_log:
  "stop_all E ms w = (r, w') \<Longrightarrow>
     \<exists>k\<le>length ms. api_log w' = api_log w @ map Stop (take k ms)
        \<and> (case r of Inr u \<Rightarrow> k = length ms | Inl e \<Rightarrow> \<exists>m. e = ProviderError m)"
proof (induction ms arbitrary: w)
  case Nil
  then show ?case by (auto simp: return_def)
next
  case (Cons sm ms)
  obtain r1 w1 where a: "api (Stop sm) (sm_stop E sm) w = (r1, w1)"
    by (cases "api (Stop sm) (sm_stop E sm) w")
  have l1: "api_log w1 = api_log w @ [Stop sm]" using a by (rule api_log)
  show ?case
  proof (cases r1)
    case (Inl e)
    with Cons.prems a have "w' = w1" "r = Inl e" by (simp_all add: bind_def)
    moreover from a Inl have "\<exists>m. e = ProviderError m" by (auto dest: api_error)
    ultimately show ?thesis using l1 by (intro exI[of _ 1]) auto
  next
    case (Inr x)
    with Cons.prems a have "stop_all E ms w1 = (r, w')" by (simp add: bind_def)
    from Cons.IH[OF this] obtain k where "k \<le> length ms" "api_log w' = api_log w1 @ map Stop (take k ms)"
      "case r of Inr u \<Rightarrow> k = length ms | Inl e \<Rightarrow> \<exists>m. e = ProviderError m"
      by blast
    with l1 show ?thesis by (intro exI[of _ "Suc k"]) (auto split: sum.splits)
  qed
qed

lemma delete_all_log:
  "delete_all E ms w = (r, w') \<Longrightarrow>
     \<exists>k\<le>length ms. api_log w' = api_log w @ map Delete (take k ms)
        \<and> (case r of Inr u \<Rightarrow> k = length ms | Inl e \<Rightarrow> \<exists>m. e = ProviderError m)"
proof (induction ms arbitrary: w)
  case Nil
  then show ?case by (auto simp: return_def)
next
  case (Cons sm ms)
  obtain r1 w1 where a: "api (Delete sm) (sm_delete E sm) w = (r1, w1)"
    by (cases "api (Delete sm) (sm_delete E sm) w")
  have l1: "api_log w1 = api_log w @ [Delete sm]" using a by (rule api_log)
  show ?case
  proof (cases r1)
    case (Inl e)
    with Cons.prems a have "w' = w1" "r = Inl e" by (simp_all add: bind_def)
    moreover from a Inl have "\<exists>m. e = ProviderError m" by (auto dest: api_error)
    ultimately show ?thesis using l1 by (intro exI[of _ 1]) auto
  next
    case (Inr x)
    with Cons.prems a have "delete_all E ms w1 = (r, w')" by (simp add: bind_def)
    from Cons.IH[OF this] obtain k where "k \<le> length ms" "api_log w' = api_log w1 @ map Delete (take k ms)"
      "case r of Inr u \<Rightarrow> k = length ms | Inl e \<Rightarrow> \<exists>m. e = ProviderError m"
      by blast
    with l1 show ?thesis by (intro exI[of _ "Suc k"]) (auto split: sum.splits)
  qed
qed

subsection \<open>The steps of \<open>create_virtual_machine\<close>\<close>

lemma count_needed_fallback:
  "count_tag p = [] \<or> e = 0 \<Longrightarrow> count_needed E p e w = (Inr ([], count p), w)"
  by (auto simp: count_needed_def return_def)

lemma count_needed_exact:
  assumes "count_tag p \<noteq> []" "e \<noteq> 0"
    and "sdc_machines E (count_tag p) (Some ''running'') (prov w) = (Inr existing, s)"
  shows "count_needed E p e w =
           (Inr (existing, e - int (length existing)),
            \<lparr>api_log = api_log w @ [Machines (count_tag p) (Some ''running'')], prov = s\<rparr>)"
  using assms by (simp add: count_needed_def list_existing_machines_def act)

lemma create_virtual_machine_unfold:
  "create_virtual_machine fuel E p =
     bind (py_int (exact_count p))
       (\<lambda>exact. bind (count_needed E p exact)
          (\<lambda>(existing_machines, needed). after_count fuel E p existing_machines needed))"
  by (simp add: create_virtual_machine_def after_count_def)


lemma wait_loop_error:
  "wait_loop fuel E ms st dl w = (Inl e, w') \<Longrightarrow> (\<exists>m. e = ProviderError m) \<or> e = Out_of_fuel"
proof (induction fuel arbitrary: w)
  case 0
  then show ?case by (simp add: raise_def)
next
  case (Suc fuel)
  obtain r1 w1 where a: "all_status E ms st w = (r1, w1)" by (cases "all_status E ms st w")
  show ?case
  proof (cases "r1 = Inr False \<and> float_gt dl (fst (time_time E (prov w1)))")
    case True
    with Suc.prems a have
      "wait_loop fuel E ms st dl (w1\<lparr>prov := time_sleep E 2 (snd (time_time E (prov w1)))\<rparr>) = (Inl e, w')"
      by (simp add: bind_def split: prod.splits)
    then show ?thesis by (rule Suc.IH)
  next
    case False
    with Suc.prems a have "r1 = Inl e"
      by (cases r1) (auto simp: bind_def return_def split: prod.splits if_splits)
    with a show ?thesis by (auto dest: all_status_result)
  qed
qed

lemma wait_for_status_error:
  assumes "wait_for_status fuel E p ms st w = (Inl e, w')"
  shows "(\<exists>m. e = ProviderError m) \<or> e = Out_of_fuel \<or> e = OverflowError
         \<or> e = Fail_json ''Timed out creating machines''"
proof -
  obtain now s where t: "time_time E (prov w) = (now, s)" by (cases "time_time E (prov w)")
  let ?w0 = "w\<lparr>prov := s\<rparr>"
  let ?dl = "float_add E now (float_round E (real_of_int (wait_timeout p)))"
  show ?thesis
  proof (cases "float_overflow \<le> \<bar>wait_timeout p\<bar>")
    case True
    with assms t show ?thesis by (simp add: wait_for_status_unfold)
  next
    case False
    obtain r1 w1 where a: "wait_loop fuel E ms st ?dl ?w0 = (r1, w1)"
      by (cases "wait_loop fuel E ms st ?dl ?w0")
    show ?thesis
    proof (cases r1)
      case (Inl e1)
      with assms t a False have "e = e1" by (simp add: wait_for_status_unfold bind_def)
      with a Inl show ?thesis by (auto dest: wait_loop_error)
    next
      case (Inr u)
      obtain r2 w2 where b: "all_status E ms st w1 = (r2, w2)" by (cases "all_status E ms st w1")
      show ?thesis
      proof (cases r2)
        case (Inl e2)
        with assms t a Inr b False have "e = e2" by (simp add: wait_for_status_unfold bind_def)
        with b Inl show ?thesis by (auto dest: all_status_result)
      next
        case (Inr d)
        with assms t a \<open>r1 = Inr u\<close> b False show ?thesis
          by (auto simp: wait_for_status_unfold bind_def return_def raise_def split: if_splits)
      qed
    qed
  qed
qed

lemma after_count_log:
  assumes "after_count fuel E p existing needed w = (r, w')"
  shows "\<exists>k qs js. api_log w' = api_log w
            @ replicate k (Create_machine (name p) (package p) (image_id p) (networks p) (full_tags_of p))
            @ map Status qs @ map Raw_machine_data js
          \<and> k \<le> nat needed
          \<and> (k < nat needed \<longrightarrow> qs = [] \<and> js = [] \<and> (\<exists>m. r = Inl (ProviderError m)))
          \<and> (\<forall>x. r = Inr x \<longrightarrow> fst x = (needed > 0) \<and> length (snd x) = length existing + nat needed)
          \<and> (\<forall>e. r = Inl e \<longrightarrow> (\<exists>m. e = ProviderError m) \<or> e = Out_of_fuel
                 \<or> e = OverflowError \<or> e = Fail_json ''Timed out creating machines'')"
proof (cases "needed > 0")
  case False
  with assms have "bind (raw_all E existing) (\<lambda>raws. return (False, raws)) w = (r, w')"
    by (simp add: after_count_def bind_def return_def)
  moreover obtain r1 w1 where a: "raw_all E existing w = (r1, w1)" by (cases "raw_all E existing w")
  ultimately have r: "w' = w1" "r = (case r1 of Inl e \<Rightarrow> Inl e | Inr rs \<Rightarrow> Inr (False, rs))"
    by (auto simp: bind_def return_def split: sum.splits)
  from raw_all_log[OF a] obtain j where
    "api_log w1 = api_log w @ map Raw_machine_data (take j existing)"
    "case r1 of Inr rs \<Rightarrow> j = length existing \<and> length rs = length existing
              | Inl e \<Rightarrow> \<exists>m. e = ProviderError m"
    by blast
  with r False show ?thesis
    by (intro exI[of _ 0] exI[of _ "[]"] exI[of _ "take j existing"]) (auto split: sum.splits)
next
  case True
  let ?c = "Create_machine (name p) (package p) (image_id p) (networks p) (full_tags_of p)"
  obtain r1 w1 where a: "batch_create E p (full_tags_of p) (nat needed) w = (r1, w1)"
    by (cases "batch_create E p (full_tags_of p) (nat needed) w")
  from batch_create_log[OF a] obtain k where k: "k \<le> nat needed"
    "api_log w1 = api_log w @ replicate k ?c"
    "case r1 of Inr ms \<Rightarrow> k = nat needed \<and> length ms = nat needed | Inl e \<Rightarrow> \<exists>m. e = ProviderError m"
    by blast
  show ?thesis
  proof (cases r1)
    case (Inl e)
    with assms a True have "w' = w1" "r = Inl e" by (simp_all add: after_count_def bind_def)
    with k Inl show ?thesis by (intro exI[of _ k] exI[of _ "[]"]) auto
  next
    case (Inr created)
    with k have kn: "k = nat needed" "length created = nat needed" by simp_all
    obtain r2 w2 where b:
      "(if wait p then wait_for_status fuel E p created ''running'' else return ()) w1 = (r2, w2)"
      by (cases "(if wait p then wait_for_status fuel E p created ''running'' else return ()) w1")
    have "\<exists>qs. api_log w2 = api_log w1 @ map Status qs"
    proof (cases "wait p")
      case True
      with b show ?thesis by (auto dest: wait_for_status_log)
    next
      case False
      with b show ?thesis by (auto simp: return_def intro: exI[of _ "[]"])
    qed
    then obtain qs where l2: "api_log w2 = api_log w1 @ map Status qs" by blast
    show ?thesis
    proof (cases r2)
      case (Inl e)
      with assms a Inr b True have re: "w' = w2" "r = Inl e" by (simp_all add: after_count_def bind_def)
      from b Inl have "(\<exists>m. e = ProviderError m) \<or> e = Out_of_fuel
          \<or> e = OverflowError \<or> e = Fail_json ''Timed out creating machines''"
        by (cases "wait p") (auto dest: wait_for_status_error simp: return_def)
      with re k kn l2 show ?thesis by (intro exI[of _ k] exI[of _ qs] exI[of _ "[]"]) auto
    next
      case (Inr u)
      obtain r3 w3 where c: "raw_all E (existing @ created) w2 = (r3, w3)"
        by (cases "raw_all E (existing @ created) w2")
      from raw_all_log[OF c] obtain j where j:
        "api_log w3 = api_log w2 @ map Raw_machine_data (take j (existing @ created))"
        "case r3 of Inr rs \<Rightarrow> j = length (existing @ created) \<and> length rs = length (existing @ created)
                  | Inl e \<Rightarrow> \<exists>m. e = ProviderError m"
        by blast
      from assms a \<open>r1 = Inr created\<close> b Inr c True have
        "w' = w3" "r = (case r3 of Inl e \<Rightarrow> Inl e | Inr rs \<Rightarrow> Inr (True, rs))"
        by (auto simp: after_count_def bind_def return_def split: sum.splits)
      with k kn l2 j True show ?thesis
        by (intro exI[of _ k] exI[of _ qs] exI[of _ "take j (existing @ created)"])
           (auto split: sum.splits)
    qed
  qed
qed

lemma create_virtual_machine_log:
  assumes "create_virtual_machine fuel E p w = (r, w')"
  shows "\<exists>sel k qs js. api_log w' = api_log w @ sel
            @ replicate k (Create_machine (name p) (package p) (image_id p) (networks p) (full_tags_of p))
            @ map Status qs @ map Raw_machine_data js
          \<and> (sel = [] \<or> sel = [Machines (count_tag p) (Some ''running'')])"
proof (cases "exact_count p")
  case None
  with assms have "w' = w" by (simp add: create_virtual_machine_def py_int_def bind_def raise_def)
  then show ?thesis by (intro exI[of _ "[]"] exI[of _ 0]) simp
next
  case (Some e)
  obtain r1 w1 where a: "count_needed E p e w = (r1, w1)" by (cases "count_needed E p e w")
  have sel: "\<exists>sel. api_log w1 = api_log w @ sel \<and> (sel = [] \<or> sel = [Machines (count_tag p) (Some ''running'')])"
    using a by (auto simp: count_needed_def list_existing_machines_def bind_def return_def raise_def
        split: if_splits prod.splits sum.splits dest: api_log)
  then obtain sel where sel: "api_log w1 = api_log w @ sel"
    "sel = [] \<or> sel = [Machines (count_tag p) (Some ''running'')]" by blast
  show ?thesis
  proof (cases r1)
    case (Inl err)
    with assms Some a have "w' = w1"
      by (simp add: create_virtual_machine_unfold py_int_def bind_def return_def)
    with sel show ?thesis by (intro exI[of _ sel] exI[of _ 0] exI[of _ "[]"]) simp
  next
    case (Inr x)
    obtain existing needed where x: "x = (existing, needed)" by (cases x)
    with assms Some a Inr have "after_count fuel E p existing needed w1 = (r, w')"
      by (simp add: create_virtual_machine_unfold py_int_def bind_def return_def)
    from after_count_log[OF this] obtain k qs js where
      "api_log w' = api_log w1
            @ replicate k (Create_machine (name p) (package p) (image_id p) (networks p) (full_tags_of p))
            @ map Status qs @ map Raw_machine_data js" by blast
    with sel show ?thesis by (intro exI[of _ sel] exI[of _ k] exI[of _ qs] exI[of _ js]) simp
  qed
qed

lemma create_in_run:
  assumes "create_virtual_machine fuel E p w = (r, w')"
    and "Create_machine n pk im nw t \<in> set (drop (length (api_log w)) (api_log w'))"
  shows "t = full_tags_of p"
proof -
  from create_virtual_machine_log[OF assms(1)] obtain sel k qs js where
    l: "api_log w' = api_log w @ sel
            @ replicate k (Create_machine (name p) (package p) (image_id p) (networks p) (full_tags_of p))
            @ map Status qs @ map Raw_machine_data js"
    and "sel = [] \<or> sel = [Machines (count_tag p) (Some ''running'')]" by blast
  with assms(2) show ?thesis by auto
qed

subsection \<open>The merged tags\<close>

lemma map_of_foldl_update:
  "map_of (foldl (\<lambda>d (k, v). AList.update k v d) d xs) = map_of d ++ map_of (rev xs)"
proof (induction xs arbitrary: d)
  case Nil
  then show ?case by simp
next
  case (Cons x xs)
  obtain k v where x: "x = (k, v)" by (cases x)
  have "map_of (foldl (\<lambda>d (k, v). AList.update k v d) d (x # xs))
      = map_of (AList.update k v d) ++ map_of (rev xs)"
    using Cons.IH[of "AList.update k v d"] x by simp
  also have "\<dots> = (map_of d)(k \<mapsto> v) ++ map_of (rev xs)"
    by (simp add: update_conv')
  also have "\<dots> = map_of d ++ ([k \<mapsto> v] ++ map_of (rev xs))"
    by (rule ext) (simp add: map_add_def split: option.splits)
  also have "[k \<mapsto> v] ++ map_of (rev xs) = map_of (rev (x # xs))"
    using x by (rule_tac ext) (simp add: map_add_def split: option.splits)
  finally show ?case .
qed

lemma map_of_dict: "map_of (dict xs) = map_of (rev xs)"
  by (simp add: dict_def map_of_foldl_update)

lemma map_of_rev_distinct: "distinct (map fst xs) \<Longrightarrow> map_of (rev xs) = map_of xs"
proof -
  assume d: "distinct (map fst xs)"
  then have "distinct (map fst (rev xs))" by (simp add: rev_map[symmetric])
  with d show ?thesis by (simp add: map_of_inject_set)
qed

lemma full_tags_lookup:
  "map_of (full_tags_of p) = map_of (rev (tags p)) ++ map_of (rev (count_tag p))"
  by (simp add: full_tags_of_def map_of_dict)

subsection \<open>The polling loop\<close>

lemma all_status_True_iff:
  "fst (all_status E ms st w) = Inr True \<longleftrightarrow> all_report E ms st (prov w)"
proof (induction ms arbitrary: w)
  case Nil
  then show ?case by (simp add: return_def)
next
  case (Cons sm ms)
  obtain x s1 where a: "sm_status E sm (prov w) = (x, s1)" by (cases "sm_status E sm (prov w)")
  show ?case
  proof (cases x)
    case (Inl e)
    with a show ?thesis by (simp add: bind_def api_def)
  next
    case (Inr y)
    with a Cons.IH[of "\<lparr>api_log = api_log w @ [Status sm], prov = s1\<rparr>"] show ?thesis
      by (simp add: bind_def api_def return_def)
  qed
qed

lemma all_status_False_iff:
  "fst (all_status E ms st w) = Inr False \<longleftrightarrow> other_found E ms st (prov w)"
proof (induction ms arbitrary: w)
  case Nil
  then show ?case by (simp add: return_def)
next
  case (Cons sm ms)
  obtain x s1 where a: "sm_status E sm (prov w) = (x, s1)" by (cases "sm_status E sm (prov w)")
  show ?case
  proof (cases x)
    case (Inl e)
    with a show ?thesis by (simp add: bind_def api_def)
  next
    case (Inr y)
    with a Cons.IH[of "\<lparr>api_log = api_log w @ [Status sm], prov = s1\<rparr>"] show ?thesis
      by (simp add: bind_def api_def return_def)
  qed
qed

lemma all_status_all:
  "all_status E ms st w = (Inr True, w') \<Longrightarrow> api_log w' = api_log w @ map Status ms"
  by (drule all_status_log) auto

lemma all_status_same:
  assumes "\<forall>m\<in>set ms. \<forall>s. fst (sm_status E m s) = Inr st"
  shows "\<exists>w'. all_status E ms st w = (Inr True, w') \<and> api_log w' = api_log w @ map Status ms"
  using assms
proof (induction ms arbitrary: w)
  case Nil
  then show ?case by (simp add: return_def)
next
  case (Cons sm ms)
  obtain r s where a: "sm_status E sm (prov w) = (r, s)" by (cases "sm_status E sm (prov w)")
  with Cons.prems have r: "r = Inr st" by (metis fst_conv list.set_intros(1))
  let ?w1 = "\<lparr>api_log = api_log w @ [Status sm], prov = s\<rparr>"
  from Cons.prems have "\<forall>m\<in>set ms. \<forall>s. fst (sm_status E m s) = Inr st" by simp
  from Cons.IH[OF this, of ?w1] obtain w' where
    "all_status E ms st ?w1 = (Inr True, w')" "api_log w' = api_log ?w1 @ map Status ms" by blast
  with a r show ?case by (simp add: bind_def api_def)
qed


lemma wait_loop_first_poll:
  "wait_loop (Suc fuel) E (m # ms) st dl w = (r, w') \<Longrightarrow>
     \<exists>qs. api_log w' = api_log w @ Status m # map Status qs"
proof -
  assume run: "wait_loop (Suc fuel) E (m # ms) st dl w = (r, w')"
  obtain r1 w1 where a: "all_status E (m # ms) st w = (r1, w1)"
    by (cases "all_status E (m # ms) st w")
  obtain x s1 where b: "api (Status m) (sm_status E m) w = (x, s1)"
    by (cases "api (Status m) (sm_status E m) w")
  have l0: "api_log s1 = api_log w @ [Status m]" using b by (rule api_log)
  have "\<exists>q1. api_log w1 = api_log s1 @ map Status q1"
  proof (cases x)
    case (Inl e)
    with a b have "w1 = s1" by (simp add: bind_def)
    then show ?thesis by (intro exI[of _ "[]"]) simp
  next
    case (Inr y)
    show ?thesis
    proof (cases "y = st")
      case True
      with a b Inr have "all_status E ms st s1 = (r1, w1)" by (simp add: bind_def)
      then show ?thesis by (rule all_status_statuses)
    next
      case False
      with a b Inr have "w1 = s1" by (simp add: bind_def return_def)
      then show ?thesis by (intro exI[of _ "[]"]) simp
    qed
  qed
  then obtain q1 where l1: "api_log w1 = api_log w @ Status m # map Status q1" using l0 by auto
  show ?thesis
  proof (cases "r1 = Inr False \<and> float_gt dl (fst (time_time E (prov w1)))")
    case True
    with run a have
      "wait_loop fuel E (m # ms) st dl (w1\<lparr>prov := time_sleep E 2 (snd (time_time E (prov w1)))\<rparr>) = (r, w')"
      by (simp add: bind_def split: prod.splits)
    from wait_loop_log[OF this] obtain q2 where "api_log w' = api_log w1 @ map Status q2" by auto
    with l1 show ?thesis by (intro exI[of _ "q1 @ q2"]) simp
  next
    case False
    with run a have "api_log w' = api_log w1"
      by (cases r1) (auto simp: bind_def return_def split: prod.splits if_splits)
    with l1 show ?thesis by auto
  qed
qed








lemma wait_for_status_success:
  assumes "wait_for_status fuel E p ms st w = (Inr (), w')"
    and "time_time E (prov w) = (now, s)"
  shows "\<exists>w2. wait_loop fuel E ms st
                 (float_add E now (float_round E (real_of_int (wait_timeout p))))
                 (w\<lparr>prov := s\<rparr>) = (Inr (), w2)
             \<and> all_report E ms st (prov w2)
             \<and> all_status E ms st w2 = (Inr True, w')"
proof -
  let ?w0 = "w\<lparr>prov := s\<rparr>"
  let ?dl = "float_add E now (float_round E (real_of_int (wait_timeout p)))"
  from assms have small: "\<not> float_overflow \<le> \<bar>wait_timeout p\<bar>"
    by (auto simp: wait_for_status_unfold split: if_splits)
  obtain r1 w1 where a: "wait_loop fuel E ms st ?dl ?w0 = (r1, w1)"
    by (cases "wait_loop fuel E ms st ?dl ?w0")
  obtain r2 w2 where b: "all_status E ms st w1 = (r2, w2)" by (cases "all_status E ms st w1")
  from assms small a b have "r1 = Inr () \<and> r2 = Inr True \<and> w2 = w'"
    by (cases r1; cases r2)
      (auto simp: wait_for_status_unfold bind_def return_def raise_def split: if_splits)
  moreover from this b have "all_report E ms st (prov w1)"
    using all_status_True_iff[of E ms st w1] by simp
  ultimately show ?thesis using a b by auto
qed

subsection \<open>The calls of \<open>delete_machines\<close>\<close>

lemma select_machines_log:
  "select_machines E p w = (r, w') \<Longrightarrow>
     \<exists>sel. api_log w' = api_log w @ sel
        \<and> (sel = [] \<or> sel = [Machines (tags p) None] \<or> (\<exists>i. sel = [Machine i]))"
  by (auto simp: select_machines_def bind_def return_def
      split: if_splits option.splits prod.splits sum.splits dest!: api_log)

lemma delete_split:
  assumes "A @ map Delete ds = l1 @ Delete m # l2" and "\<forall>x. Delete x \<notin> set A"
  shows "set A \<subseteq> set l1 \<and> m \<in> set ds \<and> set l2 \<subseteq> Delete ` set ds"
proof -
  from assms(1) obtain us where
    "(A = l1 @ us \<and> us @ map Delete ds = Delete m # l2) \<or>
     (A @ us = l1 \<and> map Delete ds = us @ Delete m # l2)"
    by (auto simp: append_eq_append_conv2)
  then show ?thesis
  proof
    assume a: "A = l1 @ us \<and> us @ map Delete ds = Delete m # l2"
    show ?thesis
    proof (cases us)
      case Nil
      with a have "map Delete ds = Delete m # l2" "A = l1" by simp_all
      then show ?thesis by (cases ds) auto
    next
      case (Cons u us')
      with a have "Delete m \<in> set A" by auto
      with assms(2) show ?thesis by blast
    qed
  next
    assume b: "A @ us = l1 \<and> map Delete ds = us @ Delete m # l2"
    then have "set (map Delete ds) = set (us @ Delete m # l2)" by metis
    then have "Delete m \<in> Delete ` set ds" "set l2 \<subseteq> Delete ` set ds" by auto
    with b show ?thesis by auto
  qed
qed

subsection \<open>Runs on the simulated provider\<close>

lemmas run_simps = create_virtual_machine_def count_needed_def list_existing_machines_def
  wait_for_status_def full_tags_of_def dict_def delete_machines_def select_machines_def
  py_int_def bind_def return_def raise_def api_def float_of_int_def float_add_def
  float_overflow_def
  sim_env_def sim_start_def defaults_def web_params_def running_env_def

lemma web_run:
  "create_virtual_machine 1 running_env web_params sim_start =
     (Inr (True, [''a'', ''b'', ''n'', ''nn'', ''nnn'']),
      \<lparr>api_log =
         [Machines [(''role'', ''web'')] (Some ''running''),
          Create_machine None None (Some ''img'') None [(''role'', ''web''), (''x'', ''y'')],
          Create_machine None None (Some ''img'') None [(''role'', ''web''), (''x'', ''y'')],
          Create_machine None None (Some ''img'') None [(''role'', ''web''), (''x'', ''y'')],
          Status ''n'', Status ''nn'', Status ''nnn'',
          Status ''n'', Status ''nn'', Status ''nnn'',
          Raw_machine_data ''a'', Raw_machine_data ''b'', Raw_machine_data ''n'',
          Raw_machine_data ''nn'', Raw_machine_data ''nnn''],
       prov = \<lparr>clock = 0, made = 3\<rparr>\<rparr>)"
  by (simp add: run_simps eval_nat_numeral)

lemma web_run_log:
  "api_log (snd (create_virtual_machine 1 running_env web_params sim_start)) =
         [Machines [(''role'', ''web'')] (Some ''running''),
          Create_machine None None (Some ''img'') None [(''role'', ''web''), (''x'', ''y'')],
          Create_machine None None (Some ''img'') None [(''role'', ''web''), (''x'', ''y'')],
          Create_machine None None (Some ''img'') None [(''role'', ''web''), (''x'', ''y'')],
          Status ''n'', Status ''nn'', Status ''nnn'',
          Status ''n'', Status ''nn'', Status ''nnn'',
          Raw_machine_data ''a'', Raw_machine_data ''b'', Raw_machine_data ''n'',
          Raw_machine_data ''nn'', Raw_machine_data ''nnn'']"
  using web_run by simp





lemma absent_run:
  "delete_machines 2 stopping_env absent_params sim_start =
     (Inr True,
      \<lparr>api_log =
         [Machines [(''role'', ''web'')] None, Stop ''a'', Stop ''b'',
          Status ''a'', Status ''a'', Status ''b'', Status ''a'', Status ''b'',
          Delete ''a'', Delete ''b''],
       prov = \<lparr>clock = 2, made = 0\<rparr>\<rparr>)"
  by (simp add: run_simps stopping_env_def absent_params_def eval_nat_numeral)

lemma absent_select:
  "select_machines stopping_env absent_params sim_start =
     (Inr [''a'', ''b''],
      \<lparr>api_log = [Machines [(''role'', ''web'')] None], prov = \<lparr>clock = 0, made = 0\<rparr>\<rparr>)"
  by (simp add: run_simps stopping_env_def absent_params_def)

lemmas cloud_simps = run_simps cloud_env_def cloud_start_def cloud_status_def tags_match_def
  one_web_params_def





lemma patient_second:
  "create_virtual_machine 2 (cloud_env 2) one_web_params
      \<lparr>api_log =
         [Machines [(''role'', ''web'')] (Some ''running''),
          Create_machine None None (Some ''img'') None [(''role'', ''web'')],
          Status ''n'', Status ''n'', Status ''n'', Raw_machine_data ''n''],
       prov = \<lparr>cloud_clock = 2, fleet = [(''n'', [(''role'', ''web'')], 0)]\<rparr>\<rparr> =
     (Inr (False, [''n'']),
      \<lparr>api_log =
         [Machines [(''role'', ''web'')] (Some ''running''),
          Create_machine None None (Some ''img'') None [(''role'', ''web'')],
          Status ''n'', Status ''n'', Status ''n'', Raw_machine_data ''n'',
          Machines [(''role'', ''web'')] (Some ''running''), Raw_machine_data ''n''],
       prov = \<lparr>cloud_clock = 2, fleet = [(''n'', [(''role'', ''web'')], 0)]\<rparr>\<rparr>)"
  by (simp add: cloud_simps eval_nat_numeral)

subsection \<open>The fallback count without \<^verbatim>\<open>exact_count\<close>\<close>

text \<open>
  C1. The scenario \<^verbatim>\<open>count=3, exact_count=None\<close>: line 199 evaluates
  \<^verbatim>\<open>int(module.params.get('exact_count'))\<close> before anything else is decided, and
  \<^verbatim>\<open>int(None)\<close> raises \<^verbatim>\<open>TypeError\<close>. The run ends there: no create call is issued, nothing
  is returned, and the world is the one the run started in, for every provider.
\<close>

theorem count3_exact_count_unset_raises:
  "create_virtual_machine fuel E (defaults\<lparr>count := 3\<rparr>) w = (Inl TypeError, w)"
  by (simp add: create_virtual_machine_def defaults_def py_int_def act)

subsection \<open>The exact count creates the shortfall\<close>

text \<open>
  C3. When \<^verbatim>\<open>count_tag\<close> and \<^verbatim>\<open>exact_count\<close> are both set and \<^verbatim>\<open>exact_count\<close> exceeds the
  number of machines the provider lists for \<^verbatim>\<open>count_tag\<close> in state \<^verbatim>\<open>running\<close>, the run starts
  with that listing, filtered by \<^verbatim>\<open>count_tag\<close> and \<^verbatim>\<open>state='running'\<close>, and then issues the
  create calls, each with the merged tags: never more than the shortfall, and fewer only when
  a create call raised an exception of the provider, which ends the run. After the create
  calls come only status polls and reads of raw machine data. This holds whatever the result
  is, also when the wait times out or is still polling.
\<close>

theorem exact_count_creates_shortfall:
  assumes "exact_count p = Some e" and "count_tag p \<noteq> []"
    and "sdc_machines E (count_tag p) (Some ''running'') (prov w) = (Inr existing, s)"
    and "int (length existing) < e"
    and "create_virtual_machine fuel E p w = (r, w')"
  shows "\<exists>k qs js. api_log w' = api_log w @ Machines (count_tag p) (Some ''running'')
            # replicate k (Create_machine (name p) (package p) (image_id p) (networks p)
                 (dict (tags p @ count_tag p)))
            @ map Status qs @ map Raw_machine_data js
          \<and> k \<le> nat (e - int (length existing))
          \<and> (k < nat (e - int (length existing)) \<longrightarrow> (\<exists>m. r = Inl (ProviderError m)))
          \<and> creates (drop (length (api_log w)) (api_log w')) = k"
proof -
  let ?w1 = "\<lparr>api_log = api_log w @ [Machines (count_tag p) (Some ''running'')], prov = s\<rparr>"
  from assms(4) have "e \<noteq> 0" by auto
  with assms(2,3) have "count_needed E p e w = (Inr (existing, e - int (length existing)), ?w1)"
    by (simp add: count_needed_exact)
  with assms(1,5) have "after_count fuel E p existing (e - int (length existing)) ?w1 = (r, w')"
    by (simp add: create_virtual_machine_unfold py_int_def bind_def return_def)
  from after_count_log[OF this] obtain k qs js where
    "api_log w' = api_log ?w1
       @ replicate k (Create_machine (name p) (package p) (image_id p) (networks p) (full_tags_of p))
       @ map Status qs @ map Raw_machine_data js"
    "k \<le> nat (e - int (length existing))"
    "k < nat (e - int (length existing)) \<longrightarrow> qs = [] \<and> js = [] \<and> (\<exists>m. r = Inl (ProviderError m))"
    by blast
  then show ?thesis
    by (intro exI[of _ k] exI[of _ qs] exI[of _ js]) (simp add: full_tags_of_def)
qed

theorem exact_count_creates_shortfall_witness:
  "exact_count web_params = Some 5 \<and> count_tag web_params \<noteq> []
   \<and> sdc_machines running_env (count_tag web_params) (Some ''running'') (prov sim_start)
       = (Inr [''a'', ''b''], prov sim_start)
   \<and> int (length [''a'', ''b'']) < 5
   \<and> (\<exists>k qs js. api_log (snd (create_virtual_machine 1 running_env web_params sim_start))
         = api_log sim_start @ Machines (count_tag web_params) (Some ''running'')
            # replicate k (Create_machine (name web_params) (package web_params)
                 (image_id web_params) (networks web_params)
                 (dict (tags web_params @ count_tag web_params)))
            @ map Status qs @ map Raw_machine_data js
          \<and> k = 3)
   \<and> creates (drop (length (api_log sim_start))
         (api_log (snd (create_virtual_machine 1 running_env web_params sim_start)))) = 3"
proof -
  have h1: "exact_count web_params = Some 5" by (simp add: web_params_def defaults_def)
  have h2: "count_tag web_params \<noteq> []" by (simp add: web_params_def defaults_def)
  have h3: "sdc_machines running_env (count_tag web_params) (Some ''running'') (prov sim_start)
       = (Inr [''a'', ''b''], prov sim_start)" by (simp add: running_env_def sim_env_def)
  have h4: "int (length [''a'', ''b'']) < 5" by simp
  have h5: "create_virtual_machine 1 running_env web_params sim_start
     = (fst (create_virtual_machine 1 running_env web_params sim_start),
        snd (create_virtual_machine 1 running_env web_params sim_start))" by simp
  have r: "fst (create_virtual_machine 1 running_env web_params sim_start)
     = Inr (True, [''a'', ''b'', ''n'', ''nn'', ''nnn''])" using web_run by simp
  from exact_count_creates_shortfall [OF h1 h2 h3 h4 h5] obtain k qs js where
    k: "api_log (snd (create_virtual_machine 1 running_env web_params sim_start))
         = api_log sim_start @ Machines (count_tag web_params) (Some ''running'')
            # replicate k (Create_machine (name web_params) (package web_params)
                 (image_id web_params) (networks web_params)
                 (dict (tags web_params @ count_tag web_params)))
            @ map Status qs @ map Raw_machine_data js"
     "k \<le> nat (5 - int (length [''a'', ''b'']))"
     "k < nat (5 - int (length [''a'', ''b''])) \<longrightarrow>
        (\<exists>m. fst (create_virtual_machine 1 running_env web_params sim_start) = Inl (ProviderError m))"
     "creates (drop (length (api_log sim_start))
         (api_log (snd (create_virtual_machine 1 running_env web_params sim_start)))) = k"
    by blast
  from k(2,3) r have "k = 3" by auto
  with k(1,4) h1 h2 h3 h4 show ?thesis by blast
qed


subsection \<open>An exact count that is already met\<close>

text \<open>
  With a non-empty \<^verbatim>\<open>count_tag\<close> and an \<^verbatim>\<open>exact_count\<close> other than zero that the listed
  machines already reach, no create call is issued and \<^verbatim>\<open>changed\<close> is false.
\<close>

lemma exact_count_met_creates_nothing:
  assumes "exact_count p = Some e" and "count_tag p \<noteq> []" and "e \<noteq> 0"
    and "sdc_machines E (count_tag p) (Some ''running'') (prov w) = (Inr existing, s)"
    and "e \<le> int (length existing)"
    and "create_virtual_machine fuel E p w = (r, w')"
  shows "creates (drop (length (api_log w)) (api_log w')) = 0 \<and> (\<forall>x. r = Inr x \<longrightarrow> fst x = False)"
proof -
  let ?w1 = "\<lparr>api_log = api_log w @ [Machines (count_tag p) (Some ''running'')], prov = s\<rparr>"
  from assms(2,3,4) have "count_needed E p e w = (Inr (existing, e - int (length existing)), ?w1)"
    by (simp add: count_needed_exact)
  with assms(1,6) have "after_count fuel E p existing (e - int (length existing)) ?w1 = (r, w')"
    by (simp add: create_virtual_machine_unfold py_int_def bind_def return_def)
  from after_count_log[OF this] obtain k qs js where
    "api_log w' = api_log ?w1
       @ replicate k (Create_machine (name p) (package p) (image_id p) (networks p) (full_tags_of p))
       @ map Status qs @ map Raw_machine_data js"
    "k \<le> nat (e - int (length existing))"
    "\<forall>x. r = Inr x \<longrightarrow> fst x = (e - int (length existing) > 0) \<and>
        length (snd x) = length existing + nat (e - int (length existing))"
    by blast
  with assms(5) show ?thesis by auto
qed

text \<open>
  C2. The claim includes \<^verbatim>\<open>exact_count = 0\<close>. Line 209 tests the truth value of
  \<^verbatim>\<open>exact_count\<close>, and zero is false in Python: the run takes the \<^verbatim>\<open>else\<close> branch, lists
  nothing and creates \<^verbatim>\<open>count\<close> machines. With \<^verbatim>\<open>count_tag = {role: web}\<close>,
  \<^verbatim>\<open>exact_count = 0\<close> and the default \<^verbatim>\<open>count = 1\<close>, on a provider that has two matching
  running machines, one machine is created and \<^verbatim>\<open>changed\<close> is true.
\<close>

theorem exact_count_zero_creates_count:
  "create_virtual_machine 1 running_env zero_params sim_start =
     (Inr (True, [''n'']),
      \<lparr>api_log =
         [Create_machine None None (Some ''img'') None [(''role'', ''web'')],
          Status ''n'', Status ''n'', Raw_machine_data ''n''],
       prov = \<lparr>clock = 0, made = 1\<rparr>\<rparr>)"
  by (simp add: run_simps zero_params_def)

subsection \<open>An exact count without a count tag\<close>

text \<open>
  C4, as the claim states it, fails: with \<^verbatim>\<open>exact_count = 5\<close> and the default empty
  \<^verbatim>\<open>count_tag\<close> the run does not fail; it creates \<^verbatim>\<open>count = 1\<close> machine and returns.
\<close>

theorem exact_count_without_count_tag_counterexample:
  "exact_count untagged_params = Some 5 \<and> count_tag untagged_params = []
   \<and> create_virtual_machine 1 running_env untagged_params sim_start =
     (Inr (True, [''n'']),
      \<lparr>api_log =
         [Create_machine None None (Some ''img'') None [],
          Status ''n'', Status ''n'', Raw_machine_data ''n''],
       prov = \<lparr>clock = 0, made = 1\<rparr>\<rparr>)"
  by (simp add: run_simps untagged_params_def)

text \<open>
  C4, amended. When \<^verbatim>\<open>exact_count\<close> is set and \<^verbatim>\<open>count_tag\<close> is empty, the condition of line
  209 is false, so \<^verbatim>\<open>list_existing_machines\<close> is not called: the run issues no listing call and
  uses the fallback \<^verbatim>\<open>count\<close>, issuing that many create calls (fewer only when a create call
  raised an exception of the provider); the only \<^verbatim>\<open>fail_json\<close> it can end with is the timeout
  of the wait. The check for tags is in \<^verbatim>\<open>list_existing_machines\<close> itself, which fails with
  its message when it is called with the empty \<^verbatim>\<open>count_tag\<close>.
\<close>

theorem exact_count_without_count_tag_falls_back:
  assumes "exact_count p = Some e" and "count_tag p = []"
    and "create_virtual_machine fuel E p w = (r, w')"
  shows "(\<exists>k qs js. api_log w' = api_log w
            @ replicate k (Create_machine (name p) (package p) (image_id p) (networks p) (dict (tags p)))
            @ map Status qs @ map Raw_machine_data js
          \<and> k \<le> nat (count p)
          \<and> (k < nat (count p) \<longrightarrow> (\<exists>m. r = Inl (ProviderError m))))
       \<and> (\<forall>msg. r = Inl (Fail_json msg) \<longrightarrow> msg = ''Timed out creating machines'')
       \<and> list_existing_machines E p (count_tag p) w =
           (Inl (Fail_json ''Must have tags to list existing machines for deletion/counting''), w)"
proof -
  from assms(2) have "count_needed E p e w = (Inr ([], count p), w)"
    by (simp add: count_needed_fallback)
  with assms(1,3) have "after_count fuel E p [] (count p) w = (r, w')"
    by (simp add: create_virtual_machine_unfold py_int_def bind_def return_def)
  from after_count_log[OF this] obtain k qs js where
    "api_log w' = api_log w
       @ replicate k (Create_machine (name p) (package p) (image_id p) (networks p) (full_tags_of p))
       @ map Status qs @ map Raw_machine_data js"
    "k \<le> nat (count p)"
    "k < nat (count p) \<longrightarrow> qs = [] \<and> js = [] \<and> (\<exists>m. r = Inl (ProviderError m))"
    "\<forall>e. r = Inl e \<longrightarrow> (\<exists>m. e = ProviderError m) \<or> e = Out_of_fuel
                 \<or> e = OverflowError \<or> e = Fail_json ''Timed out creating machines''"
    by blast
  moreover have "list_existing_machines E p (count_tag p) w =
           (Inl (Fail_json ''Must have tags to list existing machines for deletion/counting''), w)"
    using assms(2) by (simp add: list_existing_machines_def raise_def)
  ultimately show ?thesis using assms(2)
    by (intro conjI exI[of _ k] exI[of _ qs] exI[of _ js]) (auto simp: full_tags_of_def)
qed

theorem exact_count_without_count_tag_falls_back_witness:
  "exact_count untagged_params = Some 5 \<and> count_tag untagged_params = []
   \<and> (\<exists>k qs js. api_log (snd (create_virtual_machine 1 running_env untagged_params sim_start))
          = api_log sim_start
            @ replicate k (Create_machine (name untagged_params) (package untagged_params)
                 (image_id untagged_params) (networks untagged_params) (dict (tags untagged_params)))
            @ map Status qs @ map Raw_machine_data js
          \<and> k = 1)
   \<and> fst (create_virtual_machine 1 running_env untagged_params sim_start) = Inr (True, [''n''])"
proof -
  have h1: "exact_count untagged_params = Some 5" by (simp add: untagged_params_def defaults_def)
  have h2: "count_tag untagged_params = []" by (simp add: untagged_params_def defaults_def)
  have h3: "create_virtual_machine 1 running_env untagged_params sim_start
     = (fst (create_virtual_machine 1 running_env untagged_params sim_start),
        snd (create_virtual_machine 1 running_env untagged_params sim_start))" by simp
  have r: "fst (create_virtual_machine 1 running_env untagged_params sim_start) = Inr (True, [''n''])"
    by (simp add: run_simps untagged_params_def)
  have c: "count untagged_params = 1" by (simp add: untagged_params_def defaults_def)
  from exact_count_without_count_tag_falls_back [OF h1 h2 h3] obtain k qs js where
    k: "api_log (snd (create_virtual_machine 1 running_env untagged_params sim_start))
          = api_log sim_start
            @ replicate k (Create_machine (name untagged_params) (package untagged_params)
                 (image_id untagged_params) (networks untagged_params) (dict (tags untagged_params)))
            @ map Status qs @ map Raw_machine_data js"
      "k \<le> nat (count untagged_params)"
      "k < nat (count untagged_params) \<longrightarrow>
         (\<exists>m. fst (create_virtual_machine 1 running_env untagged_params sim_start) = Inl (ProviderError m))"
    by blast
  from k(2,3) r c have "k = 1" by auto
  with k(1) h1 h2 r show ?thesis by blast
qed

subsection \<open>The tags of the created machines\<close>





text \<open>
  C9. When \<^verbatim>\<open>tags\<close> and \<^verbatim>\<open>count_tag\<close> give a key different values, the tags of every create
  call are \<^verbatim>\<open>dict(tags.items() + count_tag.items())\<close> and hold the value of \<^verbatim>\<open>count_tag\<close> for
  that key, not the value of \<^verbatim>\<open>tags\<close>.
\<close>

theorem count_tag_value_wins:
  assumes "distinct (map fst (count_tag p))"
    and "(k, v) \<in> set (count_tag p)" and "(k, v') \<in> set (tags p)" and "v' \<noteq> v"
    and "create_virtual_machine fuel E p w = (r, w')"
    and "Create_machine n pk im nw t \<in> set (drop (length (api_log w)) (api_log w'))"
  shows "t = dict (tags p @ count_tag p) \<and> map_of t k = Some v \<and> map_of t k \<noteq> Some v'"
proof -
  have t: "t = full_tags_of p" using assms(5,6) by (rule create_in_run)
  moreover have "map_of (rev (count_tag p)) k = Some v"
    using assms(1,2) by (simp add: map_of_rev_distinct)
  ultimately have "map_of t k = Some v" by (simp add: full_tags_lookup)
  with t assms(4) show ?thesis by (simp add: full_tags_of_def)
qed




theorem count_tag_value_wins_witness:
  "distinct (map fst (count_tag web_params))
   \<and> (''role'', ''web'') \<in> set (count_tag web_params)
   \<and> (''role'', ''db'') \<in> set (tags web_params) \<and> ''db'' \<noteq> ''web''
   \<and> Create_machine None None (Some ''img'') None [(''role'', ''web''), (''x'', ''y'')]
       \<in> set (drop (length (api_log sim_start))
            (api_log (snd (create_virtual_machine 1 running_env web_params sim_start))))
   \<and> [(''role'', ''web''), (''x'', ''y'')] = dict (tags web_params @ count_tag web_params)
   \<and> map_of [(''role'', ''web''), (''x'', ''y'')] ''role'' = Some ''web''
   \<and> map_of [(''role'', ''web''), (''x'', ''y'')] ''role'' \<noteq> Some ''db''"
proof -
  have h1: "distinct (map fst (count_tag web_params))" by (simp add: web_params_def defaults_def)
  have h2: "(''role'', ''web'') \<in> set (count_tag web_params)" by (simp add: web_params_def defaults_def)
  have h3: "(''role'', ''db'') \<in> set (tags web_params)" by (simp add: web_params_def defaults_def)
  have h4: "''db'' \<noteq> ''web''" by simp
  have h5: "create_virtual_machine 1 running_env web_params sim_start
     = (fst (create_virtual_machine 1 running_env web_params sim_start),
        snd (create_virtual_machine 1 running_env web_params sim_start))" by simp
  have h6: "Create_machine None None (Some ''img'') None [(''role'', ''web''), (''x'', ''y'')]
       \<in> set (drop (length (api_log sim_start))
            (api_log (snd (create_virtual_machine 1 running_env web_params sim_start))))"
    unfolding web_run_log by (simp add: sim_start_def)
  from count_tag_value_wins [OF h1 h2 h3 h4 h5 h6] h1 h2 h3 h4 h6 show ?thesis by blast
qed

subsection \<open>Deleting with nothing selected\<close>

text \<open>
  C8. With an empty \<^verbatim>\<open>tags\<close> and a \<^verbatim>\<open>machine_id\<close> that is \<^verbatim>\<open>None\<close> (or the empty string),
  \<^verbatim>\<open>delete_machines\<close> returns \<^verbatim>\<open>False\<close> in the world it started in: the log has no new call
  (no listing, no stop, no status poll, no delete) and the provider state is unchanged.
\<close>

theorem delete_nothing_selected:
  assumes "tags p = []" and "machine_id p = None \<or> machine_id p = Some []"
  shows "delete_machines fuel E p w = (Inr False, w)"
  using assms by (auto simp: delete_machines_def select_machines_def bind_def return_def)

theorem delete_nothing_selected_witness:
  "tags defaults = [] \<and> machine_id defaults = None
   \<and> delete_machines 1 running_env defaults sim_start = (Inr False, sim_start)
   \<and> api_log sim_start = []"
proof -
  have h1: "tags defaults = []" by (simp add: defaults_def)
  have h2: "machine_id defaults = None" by (simp add: defaults_def)
  then have h2': "machine_id defaults = None \<or> machine_id defaults = Some []" by simp
  from delete_nothing_selected [OF h1 h2'] h1 h2 show ?thesis by (simp add: sim_start_def)
qed


subsection \<open>The wait for a status\<close>

text \<open>
  C10, as the claim states it, fails: a check stops at the first machine that reports another
  status, so a machine after it may never be polled. With a timeout of zero and two machines
  that are both provisioning, the wait polls the first machine twice, the second machine
  never, and fails.
\<close>

theorem second_machine_never_polled_counterexample:
  "wait_timeout patient_params \<le> 0
   \<and> wait_for_status (Suc 0) idle_env patient_params [''a'', ''b''] ''running'' sim_start
       = (Inl (Fail_json ''Timed out creating machines''),
          \<lparr>api_log = [Status ''a'', Status ''a''], prov = \<lparr>clock = 0, made = 0\<rparr>\<rparr>)
   \<and> Status ''b'' \<notin> set [Status ''a'', Status ''a'']"
  by (simp add: run_simps patient_params_def idle_env_def)

text \<open>
  C10, amended. When \<^verbatim>\<open>wait_timeout\<close> is below \<open>2 ^ 1024 - 2 ^ 970\<close> in magnitude,
  \<^verbatim>\<open>_wait_for_status\<close> ends with \<^verbatim>\<open>fail_json\<close> exactly when the polling loop has ended normally
  and the check of line 172, made after it, finds a machine that does not report the status
  waited for; the message is then \<^verbatim>\<open>Timed out creating machines\<close>. From that magnitude on, line
  168 raises \<^verbatim>\<open>OverflowError\<close> after the clock is read and before any poll. Otherwise, for every
  timeout, zero and negative ones included, the first machine is polled at least once, and a
  wait on machines that all report the status polls every machine (once in the loop
  condition and once in the final check) and returns normally.
\<close>

theorem wait_fails_iff_final_check_fails:
  "(time_time E (prov w) = (now, s) \<and> \<bar>wait_timeout p\<bar> < float_overflow \<longrightarrow>
      (wait_for_status fuel E p ms st w = (Inl (Fail_json msg), w') \<longleftrightarrow>
         msg = ''Timed out creating machines''
         \<and> (\<exists>w1. wait_loop fuel E ms st
                     (float_add E now (float_round E (real_of_int (wait_timeout p))))
                     (w\<lparr>prov := s\<rparr>) = (Inr (), w1)
                \<and> other_found E ms st (prov w1)
                \<and> w' = snd (all_status E ms st w1))))
   \<and> (time_time E (prov w) = (now, s) \<and> float_overflow \<le> \<bar>wait_timeout p\<bar> \<longrightarrow>
        wait_for_status fuel E p ms st w = (Inl OverflowError, w\<lparr>prov := s\<rparr>))
   \<and> (\<bar>wait_timeout p\<bar> < float_overflow \<longrightarrow>
        (\<exists>qs. api_log (snd (wait_for_status (Suc fuel) E p (m # ms) st w))
                = api_log w @ Status m # map Status qs))
   \<and> (\<bar>wait_timeout p\<bar> < float_overflow \<and> (\<forall>m\<in>set ms. \<forall>s. fst (sm_status E m s) = Inr st) \<longrightarrow>
        (\<exists>w''. wait_for_status (Suc fuel) E p ms st w = (Inr (), w'')
           \<and> api_log w'' = api_log w @ map Status ms @ map Status ms))"
proof (intro conjI impI)
  assume h: "time_time E (prov w) = (now, s) \<and> \<bar>wait_timeout p\<bar> < float_overflow"
  then have t: "time_time E (prov w) = (now, s)" and small: "\<not> float_overflow \<le> \<bar>wait_timeout p\<bar>"
    by simp_all
  let ?w0 = "w\<lparr>prov := s\<rparr>"
  let ?dl = "float_add E now (float_round E (real_of_int (wait_timeout p)))"
  obtain r1 w1 where a: "wait_loop fuel E ms st ?dl ?w0 = (r1, w1)"
    by (cases "wait_loop fuel E ms st ?dl ?w0")
  show "wait_for_status fuel E p ms st w = (Inl (Fail_json msg), w') \<longleftrightarrow>
         msg = ''Timed out creating machines''
         \<and> (\<exists>w1. wait_loop fuel E ms st ?dl ?w0 = (Inr (), w1)
                \<and> other_found E ms st (prov w1)
                \<and> w' = snd (all_status E ms st w1))"
  proof (cases r1)
    case (Inl e)
    with a have "(\<exists>m. e = ProviderError m) \<or> e = Out_of_fuel" by (auto dest: wait_loop_error)
    with t small a Inl show ?thesis by (auto simp: wait_for_status_unfold bind_def)
  next
    case (Inr u)
    obtain r2 w2 where b: "all_status E ms st w1 = (r2, w2)" by (cases "all_status E ms st w1")
    have f: "other_found E ms st (prov w1) \<longleftrightarrow> r2 = Inr False"
      using all_status_False_iff[of E ms st w1] b by simp
    show ?thesis
    proof (cases r2)
      case (Inl e)
      with b have "\<exists>m. e = ProviderError m" by (auto dest: all_status_result)
      with t small a Inr b Inl f show ?thesis by (auto simp: wait_for_status_unfold bind_def)
    next
      case (Inr d)
      with t small a \<open>r1 = Inr u\<close> b f show ?thesis
        by (auto simp: wait_for_status_unfold bind_def return_def raise_def)
    qed
  qed
next
  assume "time_time E (prov w) = (now, s) \<and> float_overflow \<le> \<bar>wait_timeout p\<bar>"
  then show "wait_for_status fuel E p ms st w = (Inl OverflowError, w\<lparr>prov := s\<rparr>)"
    by (simp add: wait_for_status_unfold)
next
  assume small: "\<bar>wait_timeout p\<bar> < float_overflow"
  obtain now s where t: "time_time E (prov w) = (now, s)" by (cases "time_time E (prov w)")
  let ?w0 = "w\<lparr>prov := s\<rparr>"
  let ?dl = "float_add E now (float_round E (real_of_int (wait_timeout p)))"
  obtain r1 w1 where a: "wait_loop (Suc fuel) E (m # ms) st ?dl ?w0 = (r1, w1)"
    by (cases "wait_loop (Suc fuel) E (m # ms) st ?dl ?w0")
  from wait_loop_first_poll[OF a] obtain q1 where
    l1: "api_log w1 = api_log w @ Status m # map Status q1" by auto
  obtain r w' where run: "wait_for_status (Suc fuel) E p (m # ms) st w = (r, w')"
    by (cases "wait_for_status (Suc fuel) E p (m # ms) st w")
  have "\<exists>qs. api_log w' = api_log w @ Status m # map Status qs"
  proof (cases r1)
    case (Inl e)
    with run t small a have "w' = w1" by (simp add: wait_for_status_unfold bind_def)
    with l1 show ?thesis by auto
  next
    case (Inr u)
    obtain r2 w2 where b: "all_status E (m # ms) st w1 = (r2, w2)"
      by (cases "all_status E (m # ms) st w1")
    from all_status_statuses[OF b] obtain q2 where l2: "api_log w2 = api_log w1 @ map Status q2"
      by blast
    from run t small a Inr b have "w' = w2"
      by (cases r2)
        (auto simp: wait_for_status_unfold bind_def return_def raise_def split: if_splits)
    with l1 l2 show ?thesis by (intro exI[of _ "q1 @ q2"]) simp
  qed
  with run show "\<exists>qs. api_log (snd (wait_for_status (Suc fuel) E p (m # ms) st w))
                = api_log w @ Status m # map Status qs" by simp
next
  assume h: "\<bar>wait_timeout p\<bar> < float_overflow \<and> (\<forall>m\<in>set ms. \<forall>s. fst (sm_status E m s) = Inr st)"
  then have all: "\<forall>m\<in>set ms. \<forall>s. fst (sm_status E m s) = Inr st"
    and small: "\<not> float_overflow \<le> \<bar>wait_timeout p\<bar>" by simp_all
  obtain now s where t: "time_time E (prov w) = (now, s)" by (cases "time_time E (prov w)")
  let ?w0 = "w\<lparr>prov := s\<rparr>"
  from all_status_same[OF all, of ?w0] obtain w1 where
    w1: "all_status E ms st ?w0 = (Inr True, w1)" "api_log w1 = api_log ?w0 @ map Status ms" by blast
  from all_status_same[OF all, of w1] obtain w2 where
    w2: "all_status E ms st w1 = (Inr True, w2)" "api_log w2 = api_log w1 @ map Status ms" by blast
  from t small w1 w2 have "wait_for_status (Suc fuel) E p ms st w = (Inr (), w2)"
    by (simp add: wait_for_status_unfold bind_def return_def)
  with w1 w2 show "\<exists>w''. wait_for_status (Suc fuel) E p ms st w = (Inr (), w'')
           \<and> api_log w'' = api_log w @ map Status ms @ map Status ms" by simp
qed


theorem wait_fails_iff_final_check_fails_witness:
  "\<bar>wait_timeout patient_params\<bar> < float_overflow \<and> wait_timeout patient_params \<le> 0
   \<and> time_time idle_env (prov sim_start) = (0, prov sim_start)
   \<and> wait_for_status (Suc 0) idle_env patient_params [''a'', ''b''] ''running'' sim_start
       = (Inl (Fail_json ''Timed out creating machines''),
          \<lparr>api_log = [Status ''a'', Status ''a''], prov = \<lparr>clock = 0, made = 0\<rparr>\<rparr>)
   \<and> (\<exists>w1. wait_loop (Suc 0) idle_env [''a'', ''b''] ''running''
               (float_add idle_env 0 (float_round idle_env (real_of_int (wait_timeout patient_params))))
               (sim_start\<lparr>prov := prov sim_start\<rparr>) = (Inr (), w1)
         \<and> other_found idle_env [''a'', ''b''] ''running'' (prov w1))
   \<and> float_overflow \<le> \<bar>wait_timeout huge_params\<bar>
   \<and> wait_for_status (Suc 0) running_env huge_params [''a'', ''b''] ''running'' sim_start
       = (Inl OverflowError, sim_start\<lparr>prov := prov sim_start\<rparr>)
   \<and> (\<exists>qs. api_log (snd (wait_for_status (Suc 0) idle_env patient_params [''a'', ''b'']
                 ''running'' sim_start))
           = api_log sim_start @ Status ''a'' # map Status qs)
   \<and> (\<exists>w''. wait_for_status (Suc 0) running_env patient_params [''a'', ''b''] ''running'' sim_start
              = (Inr (), w'')
         \<and> api_log w'' = api_log sim_start @ map Status [''a'', ''b''] @ map Status [''a'', ''b''])"
proof -
  let ?W = "\<lparr>api_log = [Status ''a'', Status ''a''], prov = \<lparr>clock = 0, made = 0\<rparr>\<rparr>"
  have small: "\<bar>wait_timeout patient_params\<bar> < float_overflow"
    by (simp add: patient_params_def defaults_def float_overflow_def)
  have h0: "wait_timeout patient_params \<le> 0" by (simp add: patient_params_def defaults_def)
  have big: "float_overflow \<le> \<bar>wait_timeout huge_params\<bar>"
    by (simp add: huge_params_def defaults_def float_overflow_def)
  have h1: "\<forall>m\<in>set [''a'', ''b'']. \<forall>s. fst (sm_status running_env m s) = Inr ''running''"
    by (simp add: running_env_def sim_env_def)
  have h2: "time_time idle_env (prov sim_start) = (0, prov sim_start)"
    by (simp add: idle_env_def sim_env_def sim_start_def)
  have h3: "time_time running_env (prov sim_start) = (0, prov sim_start)"
    by (simp add: running_env_def sim_env_def sim_start_def)
  have f: "wait_for_status (Suc 0) idle_env patient_params [''a'', ''b''] ''running'' sim_start
       = (Inl (Fail_json ''Timed out creating machines''), ?W)"
    by (simp add: run_simps patient_params_def idle_env_def)
  note none_running = wait_fails_iff_final_check_fails
    [where E = idle_env and w = sim_start and now = 0 and s = "prov sim_start"
       and p = patient_params and fuel = "Suc 0" and ms = "[''a'', ''b'']" and st = "''running''"
       and msg = "''Timed out creating machines''" and w' = ?W]
  note first_polled = wait_fails_iff_final_check_fails
    [where E = idle_env and w = sim_start and p = patient_params and fuel = 0
       and m = "''a''" and ms = "[''b'']" and st = "''running''"]
  note all_running = wait_fails_iff_final_check_fails
    [where E = running_env and w = sim_start and p = patient_params and fuel = 0
       and ms = "[''a'', ''b'']" and st = "''running''"]
  note overflow = wait_fails_iff_final_check_fails
    [where E = running_env and w = sim_start and now = 0 and s = "prov sim_start"
       and p = huge_params and fuel = "Suc 0" and ms = "[''a'', ''b'']" and st = "''running''"]
  from none_running h2 small f have a: "\<exists>w1. wait_loop (Suc 0) idle_env [''a'', ''b''] ''running''
               (float_add idle_env 0 (float_round idle_env (real_of_int (wait_timeout patient_params))))
               (sim_start\<lparr>prov := prov sim_start\<rparr>) = (Inr (), w1)
         \<and> other_found idle_env [''a'', ''b''] ''running'' (prov w1)"
    by blast
  from overflow h3 big have b:
    "wait_for_status (Suc 0) running_env huge_params [''a'', ''b''] ''running'' sim_start
       = (Inl OverflowError, sim_start\<lparr>prov := prov sim_start\<rparr>)"
    by blast
  from first_polled small have c:
    "\<exists>qs. api_log (snd (wait_for_status (Suc 0) idle_env patient_params [''a'', ''b'']
                 ''running'' sim_start))
           = api_log sim_start @ Status ''a'' # map Status qs"
    by blast
  from all_running small h1 have d:
    "\<exists>w''. wait_for_status (Suc 0) running_env patient_params [''a'', ''b''] ''running'' sim_start
              = (Inr (), w'')
         \<and> api_log w'' = api_log sim_start @ map Status [''a'', ''b''] @ map Status [''a'', ''b'']"
    by blast
  from small h0 h2 f a big b c d show ?thesis by blast
qed

subsection \<open>A wait that times out\<close>





subsection \<open>Stop before delete\<close>

text \<open>
  C7. Let \<open>ms\<close> be the machines that \<^verbatim>\<open>delete_machines\<close> selects (none when the selection
  raises). Whatever the result of the run, the calls it issues after the selection are, in
  this order: stop calls on a prefix of \<open>ms\<close>, status polls, and delete calls on a prefix of
  \<open>ms\<close>. A status poll is issued only after the stop calls on all of \<open>ms\<close>. A delete call is
  issued only after the stop calls on all of \<open>ms\<close> have returned, the polling loop that
  started in the world they left has ended, and in the check after the loop every machine of
  \<open>ms\<close>, polled in order, has answered \<^verbatim>\<open>stopped\<close>; the delete calls start in the world which
  that check left. So a delete call on a machine comes after the stop call on that machine,
  and no stop call comes after any delete call.
\<close>

theorem stop_before_delete:
  assumes "select_machines E p w = (r0, w0)"
    and "ms = (case r0 of Inl e \<Rightarrow> [] | Inr x \<Rightarrow> x)"
    and "delete_machines fuel E p w = (r, w')"
  shows "\<exists>j qs k.
           api_log w' = api_log w0 @ map Stop (take j ms) @ map Status qs @ map Delete (take k ms)
         \<and> j \<le> length ms \<and> k \<le> length ms
         \<and> (qs \<noteq> [] \<longrightarrow> j = length ms)
         \<and> (0 < k \<longrightarrow> j = length ms
               \<and> (\<exists>w1 now s w2 w3.
                     stop_all E ms w0 = (Inr (), w1)
                   \<and> time_time E (prov w1) = (now, s)
                   \<and> wait_loop fuel E ms ''stopped''
                        (float_add E now (float_round E (real_of_int (wait_timeout p))))
                        (w1\<lparr>prov := s\<rparr>) = (Inr (), w2)
                   \<and> all_report E ms ''stopped'' (prov w2)
                   \<and> all_status E ms ''stopped'' w2 = (Inr True, w3)
                   \<and> api_log w3 = api_log w0 @ map Stop ms @ map Status qs
                   \<and> fst (delete_all E ms w3) = (case r of Inl e \<Rightarrow> Inl e | Inr b \<Rightarrow> Inr ())
                   \<and> snd (delete_all E ms w3) = w'))
         \<and> (\<forall>l1 m l2. drop (length (api_log w)) (api_log w') = l1 @ Delete m # l2
               \<longrightarrow> Stop m \<in> set l1 \<and> (\<forall>m'. Stop m' \<notin> set l2))"
proof -
  from select_machines_log[OF assms(1)] obtain sel where sel: "api_log w0 = api_log w @ sel"
    "sel = [] \<or> sel = [Machines (tags p) None] \<or> (\<exists>i. sel = [Machine i])" by blast
  have shape: "\<exists>j qs k.
           api_log w' = api_log w0 @ map Stop (take j ms) @ map Status qs @ map Delete (take k ms)
         \<and> j \<le> length ms \<and> k \<le> length ms
         \<and> (qs \<noteq> [] \<longrightarrow> j = length ms)
         \<and> (0 < k \<longrightarrow> j = length ms
               \<and> (\<exists>w1 now s w2 w3.
                     stop_all E ms w0 = (Inr (), w1)
                   \<and> time_time E (prov w1) = (now, s)
                   \<and> wait_loop fuel E ms ''stopped''
                        (float_add E now (float_round E (real_of_int (wait_timeout p))))
                        (w1\<lparr>prov := s\<rparr>) = (Inr (), w2)
                   \<and> all_report E ms ''stopped'' (prov w2)
                   \<and> all_status E ms ''stopped'' w2 = (Inr True, w3)
                   \<and> api_log w3 = api_log w0 @ map Stop ms @ map Status qs
                   \<and> fst (delete_all E ms w3) = (case r of Inl e \<Rightarrow> Inl e | Inr b \<Rightarrow> Inr ())
                   \<and> snd (delete_all E ms w3) = w'))"
  proof (cases "ms = []")
    case True
    with assms have "w' = w0"
      by (cases r0) (auto simp: delete_machines_def bind_def return_def)
    with True show ?thesis by (intro exI[of _ 0] exI[of _ "[]"]) simp
  next
    case False
    with assms(2) have r0: "r0 = Inr ms" by (cases r0) auto
    obtain r1 w1 where b: "stop_all E ms w0 = (r1, w1)" by (cases "stop_all E ms w0")
    from stop_all_log[OF b] obtain j where j: "j \<le> length ms"
      "api_log w1 = api_log w0 @ map Stop (take j ms)"
      "case r1 of Inr u \<Rightarrow> j = length ms | Inl e \<Rightarrow> \<exists>m. e = ProviderError m" by blast
    show ?thesis
    proof (cases r1)
      case (Inl e)
      with assms(1,3) r0 False b have "w' = w1" by (simp add: delete_machines_def bind_def)
      with j show ?thesis by (intro exI[of _ j] exI[of _ "[]"] exI[of _ 0]) simp
    next
      case (Inr u)
      with j have jl: "j = length ms" by simp
      obtain r2 w2 where c: "wait_for_status fuel E p ms ''stopped'' w1 = (r2, w2)"
        by (cases "wait_for_status fuel E p ms ''stopped'' w1")
      from wait_for_status_log[OF c] obtain qs where qs: "api_log w2 = api_log w1 @ map Status qs"
        by blast
      show ?thesis
      proof (cases r2)
        case (Inl e)
        with assms(1,3) r0 False b \<open>r1 = Inr u\<close> c have "w' = w2"
          by (simp add: delete_machines_def bind_def)
        with j jl qs show ?thesis by (intro exI[of _ j] exI[of _ qs] exI[of _ 0]) simp
      next
        case (Inr u2)
        obtain now s where t: "time_time E (prov w1) = (now, s)" by (cases "time_time E (prov w1)")
        from c Inr have c': "wait_for_status fuel E p ms ''stopped'' w1 = (Inr (), w2)" by simp
        from wait_for_status_success[OF c' t] obtain v where v:
          "wait_loop fuel E ms ''stopped''
             (float_add E now (float_round E (real_of_int (wait_timeout p))))
             (w1\<lparr>prov := s\<rparr>) = (Inr (), v)"
          "all_report E ms ''stopped'' (prov v)"
          "all_status E ms ''stopped'' v = (Inr True, w2)" by blast
        obtain r3 w3 where d: "delete_all E ms w2 = (r3, w3)" by (cases "delete_all E ms w2")
        from delete_all_log[OF d] obtain k where k: "k \<le> length ms"
          "api_log w3 = api_log w2 @ map Delete (take k ms)" by blast
        from assms(1,3) r0 False b \<open>r1 = Inr u\<close> c Inr d have res:
          "w' = w3" "r = (case r3 of Inl e \<Rightarrow> Inl e | Inr x \<Rightarrow> Inr True)"
          by (auto simp: delete_machines_def bind_def return_def split: sum.splits)
        from b \<open>r1 = Inr u\<close> have b': "stop_all E ms w0 = (Inr (), w1)" by simp
        have "fst (delete_all E ms w2) = (case r of Inl e \<Rightarrow> Inl e | Inr b \<Rightarrow> Inr ())"
          using d res by (cases r3) auto
        with res d b' t v j jl qs k show ?thesis
          by (intro exI[of _ j] exI[of _ qs] exI[of _ k]) auto
      qed
    qed
  qed
  then obtain j qs k where s:
    "api_log w' = api_log w0 @ map Stop (take j ms) @ map Status qs @ map Delete (take k ms)"
    "0 < k \<longrightarrow> j = length ms"
    by blast
  have order: "Stop m \<in> set l1 \<and> (\<forall>m'. Stop m' \<notin> set l2)"
    if "drop (length (api_log w)) (api_log w') = l1 @ Delete m # l2" for l1 m l2
  proof -
    let ?A = "sel @ map Stop (take j ms) @ map Status qs"
    from that s(1) sel(1) have eq: "?A @ map Delete (take k ms) = l1 @ Delete m # l2" by simp
    have "\<forall>x. Delete x \<notin> set ?A" using sel(2) by auto
    from delete_split[OF eq this] have
      A: "set ?A \<subseteq> set l1" and m: "m \<in> set (take k ms)"
      and l2: "set l2 \<subseteq> Delete ` set (take k ms)" by simp_all
    from m have "0 < k" by (cases k) auto
    with s(2) have "j = length ms" by simp
    moreover from m have "m \<in> set ms" by (rule in_set_takeD)
    ultimately have "Stop m \<in> set ?A" by simp
    with A l2 show ?thesis by auto
  qed
  from shape order show ?thesis by blast
qed

theorem stop_before_delete_witness:
  "select_machines stopping_env absent_params sim_start =
     (Inr [''a'', ''b''],
      \<lparr>api_log = [Machines [(''role'', ''web'')] None], prov = \<lparr>clock = 0, made = 0\<rparr>\<rparr>)
   \<and> delete_machines 2 stopping_env absent_params sim_start =
     (Inr True,
      \<lparr>api_log =
         [Machines [(''role'', ''web'')] None, Stop ''a'', Stop ''b'',
          Status ''a'', Status ''a'', Status ''b'', Status ''a'', Status ''b'',
          Delete ''a'', Delete ''b''],
       prov = \<lparr>clock = 2, made = 0\<rparr>\<rparr>)
   \<and> Stop ''b'' \<in> set [Machines [(''role'', ''web'')] None, Stop ''a'', Stop ''b'',
          Status ''a'', Status ''a'', Status ''b'', Status ''a'', Status ''b'', Delete ''a'']
   \<and> (\<exists>j qs k.
         [Machines [(''role'', ''web'')] None, Stop ''a'', Stop ''b'',
          Status ''a'', Status ''a'', Status ''b'', Status ''a'', Status ''b'',
          Delete ''a'', Delete ''b'']
           = [Machines [(''role'', ''web'')] None] @ map Stop (take j [''a'', ''b''])
               @ map Status qs @ map Delete (take k [''a'', ''b''])
         \<and> 0 < k
         \<and> (\<exists>w2 :: sim world. all_report stopping_env [''a'', ''b''] ''stopped'' (prov w2)))"
proof -
  let ?V = "\<lparr>api_log = [Machines [(''role'', ''web'')] None], prov = \<lparr>clock = 0, made = 0\<rparr>\<rparr>"
  let ?W = "\<lparr>api_log =
         [Machines [(''role'', ''web'')] None, Stop ''a'', Stop ''b'',
          Status ''a'', Status ''a'', Status ''b'', Status ''a'', Status ''b'',
          Delete ''a'', Delete ''b''],
       prov = \<lparr>clock = 2, made = 0\<rparr>\<rparr>"
  let ?l1 = "[Machines [(''role'', ''web'')] None, Stop ''a'', Stop ''b'',
          Status ''a'', Status ''a'', Status ''b'', Status ''a'', Status ''b'', Delete ''a'']"
  have ms: "[''a'', ''b''] = (case Inr [''a'', ''b''] :: error + machine list of Inl e \<Rightarrow> [] | Inr x \<Rightarrow> x)"
    by simp
  note th = stop_before_delete [OF absent_select ms absent_run]
  then obtain j qs k where s1:
    "api_log ?W = api_log ?V @ map Stop (take j [''a'', ''b'']) @ map Status qs
        @ map Delete (take k [''a'', ''b''])"
    and s4: "0 < k \<longrightarrow> j = length [''a'', ''b'']
               \<and> (\<exists>w1 now s w2 w3.
                     stop_all stopping_env [''a'', ''b''] ?V = (Inr (), w1)
                   \<and> time_time stopping_env (prov w1) = (now, s)
                   \<and> wait_loop 2 stopping_env [''a'', ''b''] ''stopped''
                        (float_add stopping_env now
                           (float_round stopping_env (real_of_int (wait_timeout absent_params))))
                        (w1\<lparr>prov := s\<rparr>) = (Inr (), w2)
                   \<and> all_report stopping_env [''a'', ''b''] ''stopped'' (prov w2)
                   \<and> all_status stopping_env [''a'', ''b''] ''stopped'' w2 = (Inr True, w3)
                   \<and> api_log w3 = api_log ?V @ map Stop [''a'', ''b''] @ map Status qs
                   \<and> fst (delete_all stopping_env [''a'', ''b''] w3)
                       = (case Inr True :: error + bool of Inl e \<Rightarrow> Inl e | Inr b \<Rightarrow> Inr ())
                   \<and> snd (delete_all stopping_env [''a'', ''b''] w3) = ?W)"
    by (elim exE conjE)
  from s1 have seteq: "set (api_log ?W) = set (api_log ?V @ map Stop (take j [''a'', ''b''])
        @ map Status qs @ map Delete (take k [''a'', ''b'']))"
    by (rule arg_cong)
  have inL: "Delete ''b'' \<in> set (api_log ?W)" by simp
  from seteq inL have "Delete ''b'' \<in> set (api_log ?V @ map Stop (take j [''a'', ''b''])
        @ map Status qs @ map Delete (take k [''a'', ''b'']))"
    by blast
  then have kpos: "0 < k" by (cases k) auto
  from kpos s4 have "j = length [''a'', ''b'']
               \<and> (\<exists>w1 now s w2 w3.
                     stop_all stopping_env [''a'', ''b''] ?V = (Inr (), w1)
                   \<and> time_time stopping_env (prov w1) = (now, s)
                   \<and> wait_loop 2 stopping_env [''a'', ''b''] ''stopped''
                        (float_add stopping_env now
                           (float_round stopping_env (real_of_int (wait_timeout absent_params))))
                        (w1\<lparr>prov := s\<rparr>) = (Inr (), w2)
                   \<and> all_report stopping_env [''a'', ''b''] ''stopped'' (prov w2)
                   \<and> all_status stopping_env [''a'', ''b''] ''stopped'' w2 = (Inr True, w3)
                   \<and> api_log w3 = api_log ?V @ map Stop [''a'', ''b''] @ map Status qs
                   \<and> fst (delete_all stopping_env [''a'', ''b''] w3)
                       = (case Inr True :: error + bool of Inl e \<Rightarrow> Inl e | Inr b \<Rightarrow> Inr ())
                   \<and> snd (delete_all stopping_env [''a'', ''b''] w3) = ?W)"
    by (rule rev_mp)
  then have rep: "\<exists>w2 :: sim world. all_report stopping_env [''a'', ''b''] ''stopped'' (prov w2)"
    by (elim exE conjE) (rule exI, assumption)
  have d: "drop (length (api_log sim_start)) (api_log ?W) = ?l1 @ Delete ''b'' # []"
    by (simp add: sim_start_def)
  from th d have "Stop ''b'' \<in> set ?l1" by blast
  moreover from s1 kpos rep have "\<exists>j qs k.
         [Machines [(''role'', ''web'')] None, Stop ''a'', Stop ''b'',
          Status ''a'', Status ''a'', Status ''b'', Status ''a'', Status ''b'',
          Delete ''a'', Delete ''b'']
           = [Machines [(''role'', ''web'')] None] @ map Stop (take j [''a'', ''b''])
               @ map Status qs @ map Delete (take k [''a'', ''b''])
         \<and> 0 < k
         \<and> (\<exists>w2 :: sim world. all_report stopping_env [''a'', ''b''] ''stopped'' (prov w2))"
    by (intro exI[of _ j] exI[of _ qs] exI[of _ k]) simp
  ultimately show ?thesis using absent_run absent_select by simp
qed

end
